theory Spec2Isabelle
  imports Complex_Main "HOL-Library.Word"
begin

unbundle bit_operations_syntax

section \<open>Ring buffer (ringbuffer.c)\<close>

text \<open>
  The target is a 32-bit Cortex-M7: \<open>size_t\<close> is a 32-bit unsigned word, and the
  designator \<open>rb_designator_t\<close> is \<open>uint8_t\<close>. Memory regions are byte lists. A pointer
  that may be \<open>NULL\<close> is an \<open>option\<close>: \<open>None\<close> is \<open>NULL\<close>, \<open>Some x\<close> is a valid
  pointer whose pointee currently holds \<open>x\<close>.
\<close>

type_synonym size_t = "32 word"
type_synonym rb_designator_t = "8 word"
type_synonym byte = "8 word"

definition RING_BUFFER_MAX :: nat where
  "RING_BUFFER_MAX = 1"

definition SUCCESS :: int where
  "SUCCESS = 0"

definition FAILURE :: int where
  "FAILURE = - 1"

text \<open>
  \<open>struct ring_buffer\<close>. The field \<open>buf\<close> is the storage region the \<open>buf\<close> pointer
  refers to; the zero-initialised entry (pointer \<open>NULL\<close>) has no bytes behind it.
\<close>

record ring_buffer =
  element_size :: size_t
  max_elements :: size_t
  buf :: "byte list"
  head :: size_t
  tail :: size_t

text \<open>
  \<open>rb_handle_t\<close>, the attributes passed to the initialisation. Its fields are prefixed
  with \<open>attr\<close> because the names \<open>element_size\<close> and \<open>max_elements\<close> are taken by
  \<open>struct ring_buffer\<close>.
\<close>

record rb_handle_t =
  attr_element_size :: size_t
  attr_max_elements :: size_t
  attr_buffer :: "byte list option"

text \<open>
  The file-private state: the table \<open>_rb[RING_BUFFER_MAX]\<close> and the function-static
  counter \<open>index\<close> of \<open>ring_buffer_init\<close>. The counter starts at 0 and is only ever
  incremented under the guard \<open>index < RING_BUFFER_MAX\<close>, so it is a \<open>nat\<close>.
\<close>

record rb_module =
  rb_table :: "ring_buffer list"
  rb_index :: nat

definition rb_zero :: ring_buffer where
  "rb_zero = \<lparr>element_size = 0, max_elements = 0, buf = [], head = 0, tail = 0\<rparr>"

definition rb_module_init :: rb_module where
  "rb_module_init = \<lparr>rb_table = replicate RING_BUFFER_MAX rb_zero, rb_index = 0\<rparr>"

text \<open>
  \<open>ring_buffer_init(rbd, attr)\<close>: returns the result code, the value behind \<open>rbd\<close>
  afterwards, and the new module state.
\<close>

definition ring_buffer_init ::
  "rb_module \<Rightarrow> rb_designator_t option \<Rightarrow> rb_handle_t option
     \<Rightarrow> int \<times> rb_designator_t option \<times> rb_module" where
  "ring_buffer_init st rbd attr =
     (case (rbd, attr) of
        (Some d, Some a) \<Rightarrow>
          (if rb_index st < RING_BUFFER_MAX then
             (case attr_buffer a of
                Some mem \<Rightarrow>
                  (if 0 < attr_element_size a then
                     (if (attr_max_elements a - 1) AND attr_max_elements a = 0 then
                        (SUCCESS, Some (of_nat (rb_index st)),
                         st\<lparr>rb_table := (rb_table st)[rb_index st :=
                               \<lparr>element_size = attr_element_size a,
                                max_elements = attr_max_elements a,
                                buf = mem, head = 0, tail = 0\<rparr>],
                            rb_index := rb_index st + 1\<rparr>)
                      else (FAILURE, rbd, st))
                   else (FAILURE, rbd, st))
              | None \<Rightarrow> (FAILURE, rbd, st))
           else (FAILURE, rbd, st))
      | _ \<Rightarrow> (FAILURE, rbd, st))"

definition ring_buffer_full :: "ring_buffer \<Rightarrow> int" where
  "ring_buffer_full rb = (if head rb - tail rb = max_elements rb then 1 else 0)"

definition ring_buffer_empty :: "ring_buffer \<Rightarrow> int" where
  "ring_buffer_empty rb = (if head rb - tail rb = 0 then 1 else 0)"

text \<open>
  \<open>memcpy\<close> of \<open>n\<close> bytes from the start of \<open>src\<close> to offset \<open>off\<close> of \<open>dst\<close>, and a read
  of \<open>n\<close> bytes at offset \<open>off\<close>. An access that leaves either region is undefined in C:
  the model returns \<open>None\<close> there.
\<close>

definition memcpy_to :: "byte list \<Rightarrow> nat \<Rightarrow> byte list \<Rightarrow> nat \<Rightarrow> byte list option" where
  "memcpy_to dst off src n =
     (if n \<le> length src \<and> off + n \<le> length dst
      then Some (take off dst @ take n src @ drop (off + n) dst)
      else None)"

definition memcpy_from :: "byte list \<Rightarrow> nat \<Rightarrow> nat \<Rightarrow> byte list option" where
  "memcpy_from src off n =
     (if off + n \<le> length src then Some (take n (drop off src)) else None)"

text \<open>
  \<open>ring_buffer_count(rbd)\<close> and \<open>ring_buffer_clear(rbd)\<close> index the table without checking
  the designator; outside the table the result is \<open>None\<close> (undefined behaviour).
\<close>

definition ring_buffer_count :: "rb_module \<Rightarrow> rb_designator_t \<Rightarrow> int option" where
  "ring_buffer_count st rbd =
     (if unat rbd < length (rb_table st)
      then (let rb = rb_table st ! unat rbd in Some (sint (head rb - tail rb)))
      else None)"

text \<open>
  \<open>ring_buffer_put(rbd, data)\<close>: \<open>data\<close> is the object behind the source pointer. The
  result is the return code and the new module state.
\<close>

definition ring_buffer_put ::
  "rb_module \<Rightarrow> rb_designator_t \<Rightarrow> byte list \<Rightarrow> (int \<times> rb_module) option" where
  "ring_buffer_put st rbd data =
     (if unat rbd < RING_BUFFER_MAX \<and> ring_buffer_full (rb_table st ! unat rbd) = 0 then
        (let rb = rb_table st ! unat rbd;
             offset = (head rb AND (max_elements rb - 1)) * element_size rb
         in case memcpy_to (buf rb) (unat offset) data (unat (element_size rb)) of
              None \<Rightarrow> None
            | Some mem \<Rightarrow>
                Some (SUCCESS,
                      st\<lparr>rb_table := (rb_table st)[unat rbd :=
                            rb\<lparr>buf := mem, head := head rb + 1\<rparr>]\<rparr>))
      else Some (FAILURE, st))"

text \<open>
  \<open>ring_buffer_get(rbd, data)\<close>: the second component is what was copied to \<open>data\<close>
  (\<open>None\<close>: nothing was written there).
\<close>

definition ring_buffer_get ::
  "rb_module \<Rightarrow> rb_designator_t \<Rightarrow> (int \<times> byte list option \<times> rb_module) option" where
  "ring_buffer_get st rbd =
     (if unat rbd < RING_BUFFER_MAX \<and> ring_buffer_empty (rb_table st ! unat rbd) = 0 then
        (let rb = rb_table st ! unat rbd;
             offset = (tail rb AND (max_elements rb - 1)) * element_size rb
         in case memcpy_from (buf rb) (unat offset) (unat (element_size rb)) of
              None \<Rightarrow> None
            | Some bytes \<Rightarrow>
                Some (SUCCESS, Some bytes,
                      st\<lparr>rb_table := (rb_table st)[unat rbd :=
                            rb\<lparr>tail := tail rb + 1\<rparr>]\<rparr>))
      else Some (FAILURE, None, st))"

definition ring_buffer_clear :: "rb_module \<Rightarrow> rb_designator_t \<Rightarrow> rb_module option" where
  "ring_buffer_clear st rbd =
     (if unat rbd < length (rb_table st) then
        (let rb = rb_table st ! unat rbd;
             n = unat (max_elements rb * element_size rb)
         in if n \<le> length (buf rb)
            then Some (st\<lparr>rb_table := (rb_table st)[unat rbd :=
                        rb\<lparr>buf := replicate n 0 @ drop n (buf rb), head := 0, tail := 0\<rparr>]\<rparr>)
            else None)
      else None)"

text \<open>
  A caller's view of the module: any sequence of calls of the five entry points. The run
  stops with \<open>None\<close> at the first call whose behaviour is undefined.
\<close>

datatype rb_call =
    CallInit "rb_designator_t option" "rb_handle_t option"
  | CallPut rb_designator_t "byte list"
  | CallGet rb_designator_t
  | CallCount rb_designator_t
  | CallClear rb_designator_t

fun rb_call_step :: "rb_module \<Rightarrow> rb_call \<Rightarrow> rb_module option" where
  "rb_call_step st (CallInit rbd attr) = Some (snd (snd (ring_buffer_init st rbd attr)))"
| "rb_call_step st (CallPut rbd data) = map_option snd (ring_buffer_put st rbd data)"
| "rb_call_step st (CallGet rbd) = map_option (snd \<circ> snd) (ring_buffer_get st rbd)"
| "rb_call_step st (CallCount rbd) = map_option (\<lambda>_. st) (ring_buffer_count st rbd)"
| "rb_call_step st (CallClear rbd) = ring_buffer_clear st rbd"

fun rb_run :: "rb_module \<Rightarrow> rb_call list \<Rightarrow> rb_module option" where
  "rb_run st [] = Some st"
| "rb_run st (c # cs) =
     (case rb_call_step st c of None \<Rightarrow> None | Some st' \<Rightarrow> rb_run st' cs)"

text \<open>Repeated \<open>put\<close> and \<open>get\<close>, collecting the return codes and the elements read.\<close>

fun rb_put_all :: "rb_module \<Rightarrow> rb_designator_t \<Rightarrow> byte list list \<Rightarrow> (int list \<times> rb_module) option" where
  "rb_put_all st rbd [] = Some ([], st)"
| "rb_put_all st rbd (x # xs) =
     (case ring_buffer_put st rbd x of
        None \<Rightarrow> None
      | Some (r, st') \<Rightarrow>
          (case rb_put_all st' rbd xs of
             None \<Rightarrow> None
           | Some (rs, st'') \<Rightarrow> Some (r # rs, st'')))"

fun rb_get_n :: "rb_module \<Rightarrow> rb_designator_t \<Rightarrow> nat
    \<Rightarrow> ((int \<times> byte list option) list \<times> rb_module) option" where
  "rb_get_n st rbd 0 = Some ([], st)"
| "rb_get_n st rbd (Suc n) =
     (case ring_buffer_get st rbd of
        None \<Rightarrow> None
      | Some (r, out, st') \<Rightarrow>
          (case rb_get_n st' rbd n of
             None \<Rightarrow> None
           | Some (rs, st'') \<Rightarrow> Some ((r, out) # rs, st'')))"


subsection \<open>Concrete module states used as test inputs\<close>

definition ex_attr :: rb_handle_t where
  "ex_attr = \<lparr>attr_element_size = 1, attr_max_elements = 2, attr_buffer = Some [0, 0]\<rparr>"

definition ex_rb_fresh :: rb_module where
  "ex_rb_fresh =
     \<lparr>rb_table = [\<lparr>element_size = 1, max_elements = 2, buf = [0, 0], head = 0, tail = 0\<rparr>],
      rb_index = 1\<rparr>"

definition ex_rb_one :: rb_module where
  "ex_rb_one =
     \<lparr>rb_table = [\<lparr>element_size = 1, max_elements = 2, buf = [7, 0], head = 1, tail = 0\<rparr>],
      rb_index = 1\<rparr>"

definition ex_rb_full :: rb_module where
  "ex_rb_full =
     \<lparr>rb_table = [\<lparr>element_size = 1, max_elements = 2, buf = [7, 9], head = 2, tail = 0\<rparr>],
      rb_index = 1\<rparr>"

subsection \<open>Abstraction of a ring buffer to the queue it holds\<close>

text \<open>
  Slot \<open>j\<close> of the storage, the queue of elements between \<open>tail\<close> and \<open>head\<close>, the
  well-formedness of a buffer of capacity \<open>2 ^ k\<close> whose storage has exactly
  \<open>max_elements * element_size\<close> bytes, and the buffer a successful \<open>put\<close> leaves.
\<close>

definition rb_slot :: "ring_buffer \<Rightarrow> nat \<Rightarrow> byte list" where
  "rb_slot rb j = take (unat (element_size rb)) (drop (j * unat (element_size rb)) (buf rb))"

definition rb_contents :: "ring_buffer \<Rightarrow> byte list list" where
  "rb_contents rb =
     map (\<lambda>i. rb_slot rb ((unat (tail rb) + i) mod unat (max_elements rb)))
       [0..<unat (head rb - tail rb)]"

definition rb_wf :: "nat \<Rightarrow> ring_buffer \<Rightarrow> bool" where
  "rb_wf k rb \<longleftrightarrow>
     k < 32 \<and> max_elements rb = 2 ^ k \<and> 0 < element_size rb
     \<and> length (buf rb) = 2 ^ k * unat (element_size rb)
     \<and> length (buf rb) < 2 ^ 32
     \<and> unat (head rb - tail rb) \<le> 2 ^ k"

definition rb_after_put :: "ring_buffer \<Rightarrow> byte list \<Rightarrow> ring_buffer" where
  "rb_after_put rb x =
     (let off = (unat (head rb) mod unat (max_elements rb)) * unat (element_size rb)
      in rb\<lparr>buf := take off (buf rb) @ x @ drop (off + unat (element_size rb)) (buf rb),
            head := head rb + 1\<rparr>)"

definition ex_rb_wrap :: rb_module where
  "ex_rb_wrap =
     \<lparr>rb_table = [\<lparr>element_size = 1, max_elements = 2, buf = [0, 0],
                    head = 4294967295, tail = 4294967295\<rparr>],
      rb_index = 1\<rparr>"

section \<open>Effect library (fx_lib.c, fx_lib.h)\<close>

text \<open>
  A \<open>float32_t\<close> is modelled as a real number. Every finite float is a rational, and the
  parameter checks below only compare values with constants and store them, which is exact
  on the reals; the constants \<open>0.99f\<close>, \<open>0.4f\<close> and the double \<open>0.99\<close> are given by their
  exact binary values. NaN, the infinities and the rounding of float arithmetic are outside
  the model. A sample-buffer pointer is an optional address, \<open>None\<close> being \<open>NULL\<close>.
\<close>

type_synonym float32_t = real
type_synonym sample_ptr = "nat option"

definition MAX_DELAY_TIME :: real where
  "MAX_DELAY_TIME = 500"

definition Fs :: nat where
  "Fs = 48000"

definition SAMPLES :: nat where
  "SAMPLES = 128"

definition PING_PONG_BUFFER_SIZE :: nat where
  "PING_PONG_BUFFER_SIZE = SAMPLES div 2"

definition float_0_99 :: real where
  "float_0_99 = 16609444 / 16777216"

definition float_0_4 :: real where
  "float_0_4 = 13421773 / 33554432"

definition double_0_99 :: real where
  "double_0_99 = 4458563631096791 / 4503599627370496"

text \<open>\<open>enum fx_designator\<close>, as the \<open>uint8_t\<close> values the code stores and compares.\<close>

definition FXNONE :: "8 word" where "FXNONE = 0"
definition FXDELAY :: "8 word" where "FXDELAY = 1"
definition FXOVERDRIVE :: "8 word" where "FXOVERDRIVE = 2"
definition FXFUZZ :: "8 word" where "FXFUZZ = 3"
definition FXTREMOLO :: "8 word" where "FXTREMOLO = 4"
definition FXRINGMOD :: "8 word" where "FXRINGMOD = 5"
definition FXFILTER :: "8 word" where "FXFILTER = 6"

subsection \<open>Delay\<close>

datatype delay_parameter = DELAY | FEEDBACK | BLEND

datatype rb_handle_ptr = NullHandle | AddrDelayRb

text \<open>
  \<open>delay_handle_t\<close>. Field names that several handle structs share (\<open>blend\<close>, \<open>rate\<close>,
  \<open>is_running\<close>, \<open>src\<close>, \<open>dst\<close>, \<open>time\<close>, \<open>type\<close>) carry the effect's name as a prefix.
\<close>

record delay_handle_t =
  delay_ms :: float32_t
  delay_blend :: float32_t
  feedback :: float32_t
  delay_is_running :: bool
  level :: float32_t
  delay_src :: sample_ptr
  delay_dst :: sample_ptr
  delay_rb :: rb_handle_ptr

definition delay_handle_zero :: delay_handle_t where
  "delay_handle_zero =
     \<lparr>delay_ms = 0, delay_blend = 0, feedback = 0, delay_is_running = False, level = 0,
      delay_src = None, delay_dst = None, delay_rb = NullHandle\<rparr>"

text \<open>
  The file-private state of the delay section: the ring-buffer module, the attribute
  struct \<open>_delay_rb\<close> and the designator \<open>delay_rbd\<close>, which starts as \<open>FXDELAY\<close>. The array
  \<open>delay_buffer\<close> of \<open>1 << 16\<close> floats is the zero-filled storage handed to the ring buffer.
\<close>

record fx_module =
  fx_rb :: rb_module
  delay_rb_attr :: rb_handle_t
  delay_rbd :: rb_designator_t

definition delay_buffer :: "byte list" where
  "delay_buffer = replicate (65536 * 4) 0"

definition fx_module_init :: fx_module where
  "fx_module_init =
     \<lparr>fx_rb = rb_module_init,
      delay_rb_attr = \<lparr>attr_element_size = 0, attr_max_elements = 0, attr_buffer = None\<rparr>,
      delay_rbd = FXDELAY\<rparr>"

text \<open>
  The conversion \<open>(uint16_t) x\<close> of a float truncates towards zero and is undefined when
  the truncated value does not fit.
\<close>

definition float_to_uint16 :: "real \<Rightarrow> nat option" where
  "float_to_uint16 x = (if - 1 < x \<and> x < 65536 then Some (nat \<lfloor>x\<rfloor>) else None)"

text \<open>The loop that pre-fills the delay line: \<open>n\<close> times \<open>ring_buffer_put(FXDELAY, &zero)\<close>.\<close>

fun delay_fill :: "rb_module \<Rightarrow> nat \<Rightarrow> rb_module option" where
  "delay_fill st 0 = Some st"
| "delay_fill st (Suc n) =
     (case ring_buffer_put st FXDELAY [0, 0, 0, 0] of
        None \<Rightarrow> None
      | Some (r, st') \<Rightarrow> delay_fill st' n)"

text \<open>
  The branch of \<open>delay_init\<close> on \<open>delay_rbd == FXDELAY\<close>: initialise the ring buffer, or
  clear it. The result is the value of \<open>err\<close> (0 on the clearing branch) and the new state.
\<close>

definition delay_rb_setup :: "fx_module \<Rightarrow> (int \<times> fx_module) option" where
  "delay_rb_setup m =
     (if delay_rbd m = FXDELAY then
        (case ring_buffer_init (fx_rb m) (Some (delay_rbd m)) (Some (delay_rb_attr m)) of
           (err, rbd', st') \<Rightarrow>
             Some (err, m\<lparr>fx_rb := st',
                          delay_rbd := (case rbd' of Some d \<Rightarrow> d | None \<Rightarrow> delay_rbd m)\<rparr>))
      else
        (case ring_buffer_clear (fx_rb m) FXDELAY of
           None \<Rightarrow> None
         | Some st' \<Rightarrow> Some (0, m\<lparr>fx_rb := st'\<rparr>)))"

text \<open>
  \<open>delay_init\<close>: the return code, the handle and the module state afterwards; \<open>None\<close> when
  the call runs into undefined behaviour.
\<close>

definition delay_init ::
  "fx_module \<Rightarrow> delay_handle_t \<Rightarrow> sample_ptr \<Rightarrow> sample_ptr
     \<Rightarrow> float32_t \<Rightarrow> float32_t \<Rightarrow> float32_t
     \<Rightarrow> (8 word \<times> delay_handle_t \<times> fx_module) option" where
  "delay_init m handle in_buffer out_buffer d b f =
     (if in_buffer = None \<or> out_buffer = None then Some (255, handle, m)
      else if b \<le> 0 \<or> b \<ge> 1 \<or> f \<le> 0 \<or> f \<ge> float_0_99 \<or> d > MAX_DELAY_TIME
      then Some (254, handle, m)
      else
        (case delay_rb_setup
                (m\<lparr>delay_rb_attr := \<lparr>attr_element_size = 4, attr_max_elements = 65536,
                                      attr_buffer = Some delay_buffer\<rparr>\<rparr>) of
           None \<Rightarrow> None
         | Some (err, m1) \<Rightarrow>
             (if err \<noteq> 0 then Some (253, handle, m1)
              else
                (let h = handle\<lparr>delay_src := in_buffer, delay_dst := out_buffer,
                                delay_ms := d, delay_blend := b, feedback := f,
                                delay_rb := AddrDelayRb\<rparr>
                 in case float_to_uint16 (delay_ms h * (real Fs / 1000)) of
                      None \<Rightarrow> None
                    | Some delay_in_samples \<Rightarrow>
                        (case delay_fill (fx_rb m1) delay_in_samples of
                           None \<Rightarrow> None
                         | Some st' \<Rightarrow> Some (0, h, m1\<lparr>fx_rb := st'\<rparr>))))))"

text \<open>
  \<open>delay_update\<close>. The \<open>FEEDBACK\<close> case of the switch has no \<open>break\<close>: after storing the
  feedback, control runs on into the \<open>BLEND\<close> case, whose body is \<open>delay_update_blend\<close>.
\<close>

definition delay_update_blend :: "delay_handle_t \<Rightarrow> float32_t \<Rightarrow> 8 word \<times> delay_handle_t" where
  "delay_update_blend handle v =
     (if v < 0 \<or> v > 1 then (255, handle) else (0, handle\<lparr>delay_blend := v\<rparr>))"

fun delay_update :: "delay_handle_t \<Rightarrow> delay_parameter \<Rightarrow> float32_t \<Rightarrow> 8 word \<times> delay_handle_t" where
  "delay_update handle DELAY v =
     (if v > MAX_DELAY_TIME then (255, handle) else (0, handle\<lparr>delay_ms := v\<rparr>))"
| "delay_update handle FEEDBACK v =
     (if v < 0 \<or> v > 1 then (255, handle)
      else delay_update_blend (handle\<lparr>feedback := v\<rparr>) v)"
| "delay_update handle BLEND v = delay_update_blend handle v"

text \<open>The parameter ranges of the delay as the specification documents them.\<close>

definition delay_documented_range :: "real \<Rightarrow> real \<Rightarrow> real \<Rightarrow> bool" where
  "delay_documented_range d b f \<longleftrightarrow>
     0 < d \<and> d \<le> MAX_DELAY_TIME \<and> 0 < f \<and> f < 1 \<and> 0 < b \<and> b < 1"

definition ex_delay_handle :: delay_handle_t where
  "ex_delay_handle =
     \<lparr>delay_ms = 400, delay_blend = 1 / 4, feedback = 1 / 2, delay_is_running = False,
      level = 0, delay_src = Some 0, delay_dst = Some 64, delay_rb = AddrDelayRb\<rparr>"

subsection \<open>Overdrive\<close>

record overdrive_handle_t =
  threshold :: float32_t
  od_is_running :: bool
  od_src :: sample_ptr
  od_dst :: sample_ptr

definition overdrive_update :: "overdrive_handle_t \<Rightarrow> float32_t \<Rightarrow> 8 word \<times> overdrive_handle_t" where
  "overdrive_update handle t =
     (if t \<le> 0 \<or> t > float_0_4 then (255, handle) else (0, handle\<lparr>threshold := t\<rparr>))"

subsection \<open>Fuzz\<close>

datatype fuzz_parameter = GAIN | MIX

record fuzz_handle_t =
  gain :: float32_t
  mix :: float32_t
  fuzz_is_running :: bool
  fuzz_src :: sample_ptr
  fuzz_dst :: sample_ptr

fun fuzz_update :: "fuzz_handle_t \<Rightarrow> fuzz_parameter \<Rightarrow> float32_t \<Rightarrow> 8 word \<times> fuzz_handle_t" where
  "fuzz_update handle GAIN v =
     (if v < 0 \<or> v > 18 then (255, handle) else (0, handle\<lparr>gain := v\<rparr>))"
| "fuzz_update handle MIX v =
     (if v < 0 \<or> v \<ge> 1 then (255, handle) else (0, handle\<lparr>mix := v\<rparr>))"

text \<open>
  \<open>run_fuzz\<close> reads the block of \<open>PING_PONG_BUFFER_SIZE\<close> samples behind \<open>handle->src\<close> and
  writes the block behind \<open>handle->dst\<close>; the model takes the first as an argument and
  returns the second. The first loop fills \<open>z\<close> and the running maximum \<open>max_z\<close>, the second
  divides by \<open>max_z\<close>. A division whose divisor is zero is the outcome \<open>DivisionByZero\<close> (the
  hardware would store an infinity or a NaN there).
\<close>

datatype fx_fault = DivisionByZero | OutOfBounds

definition fuzz_z :: "real \<Rightarrow> real" where
  "fuzz_z q = - q / \<bar>q\<bar> * (1 - exp (- q / \<bar>q\<bar> * q))"

fun fuzz_pass1 :: "fuzz_handle_t \<Rightarrow> real list \<Rightarrow> real \<Rightarrow> real list \<times> real" where
  "fuzz_pass1 handle [] max_z = ([], max_z)"
| "fuzz_pass1 handle (s # ss) max_z =
     (let q = s * gain handle / 2 ^ 24 in
      if q \<noteq> 0 then
        (let z = fuzz_z q;
             (zs, m) = fuzz_pass1 handle ss (if z > max_z then z else max_z)
         in (z # zs, m))
      else
        (let (zs, m) = fuzz_pass1 handle ss max_z in (0 # zs, m)))"

fun fuzz_pass2 :: "fuzz_handle_t \<Rightarrow> real list \<Rightarrow> real list \<Rightarrow> real \<Rightarrow> fx_fault + real list" where
  "fuzz_pass2 handle (z # zs) (s # ss) max_z =
     (if max_z = 0 then Inl DivisionByZero
      else
        (case fuzz_pass2 handle zs ss max_z of
           Inl e \<Rightarrow> Inl e
         | Inr ds \<Rightarrow> Inr ((mix handle * z * 2 ^ 24 / max_z + (1 - mix handle) * s) # ds)))"
| "fuzz_pass2 handle zs ss max_z = Inr []"

definition run_fuzz :: "fuzz_handle_t \<Rightarrow> real list \<Rightarrow> fx_fault + real list" where
  "run_fuzz handle src =
     (if length src < PING_PONG_BUFFER_SIZE then Inl OutOfBounds
      else
        (let block = take PING_PONG_BUFFER_SIZE src;
             (z, max_z) = fuzz_pass1 handle block 0
         in fuzz_pass2 handle z block max_z))"

subsection \<open>Tremolo\<close>

datatype modulation_parameter = RATE | DEPTH

record tremolo_handle_t =
  trem_rate :: float32_t
  depth :: float32_t
  trem_is_running :: bool
  trem_time :: float32_t
  trem_src :: sample_ptr
  trem_dst :: sample_ptr

fun tremolo_update ::
  "tremolo_handle_t \<Rightarrow> modulation_parameter \<Rightarrow> float32_t \<Rightarrow> 8 word \<times> tremolo_handle_t" where
  "tremolo_update handle RATE v =
     (if v < 0 \<or> v > 1 then (255, handle) else (0, handle\<lparr>trem_rate := v\<rparr>))"
| "tremolo_update handle DEPTH v =
     (if v < 0 \<or> v > 1 then (254, handle) else (0, handle\<lparr>depth := v\<rparr>))"

subsection \<open>Ring modulator\<close>

datatype modulator_type = SINE | TRIANGLE | SQUARE | NO_CHANGE

record ring_mod_handle_t =
  rm_rate :: float32_t
  rm_blend :: float32_t
  rm_type :: modulator_type
  rm_is_running :: bool
  rm_src :: sample_ptr
  rm_dst :: sample_ptr
  rm_time :: float32_t

definition ring_mod_init ::
  "ring_mod_handle_t \<Rightarrow> sample_ptr \<Rightarrow> sample_ptr \<Rightarrow> float32_t \<Rightarrow> float32_t
     \<Rightarrow> modulator_type \<Rightarrow> 8 word \<times> ring_mod_handle_t" where
  "ring_mod_init handle in_buffer out_buffer r b ty =
     (if in_buffer = None \<or> out_buffer = None then (255, handle)
      else if r \<ge> 0 \<or> r \<le> 1 \<or> b < 0 \<or> b > double_0_99 then (254, handle)
      else (0, handle\<lparr>rm_src := in_buffer, rm_dst := out_buffer, rm_rate := r,
                      rm_blend := b, rm_type := ty, rm_time := 0\<rparr>))"

text \<open>
  \<open>ring_mod_update\<close>; the parameter is optional because the menu passes integers that
  are no enumerator, which take the \<open>default\<close> branch of the switch.
\<close>

definition ring_mod_set_type :: "ring_mod_handle_t \<Rightarrow> modulator_type \<Rightarrow> ring_mod_handle_t" where
  "ring_mod_set_type handle ty = (if ty \<noteq> NO_CHANGE then handle\<lparr>rm_type := ty\<rparr> else handle)"

fun ring_mod_update ::
  "ring_mod_handle_t \<Rightarrow> modulation_parameter option \<Rightarrow> modulator_type \<Rightarrow> float32_t
     \<Rightarrow> 8 word \<times> ring_mod_handle_t" where
  "ring_mod_update handle (Some RATE) ty v =
     (if v < 0 \<or> v > 1 then (255, handle)
      else (0, ring_mod_set_type (handle\<lparr>rm_rate := v\<rparr>) ty))"
| "ring_mod_update handle (Some DEPTH) ty v =
     (if v < 0 \<or> v > 1 then (254, handle)
      else (0, ring_mod_set_type (handle\<lparr>rm_blend := v\<rparr>) ty))"
| "ring_mod_update handle None ty v = (0, ring_mod_set_type handle ty)"

definition ex_ring_mod_handle :: ring_mod_handle_t where
  "ex_ring_mod_handle =
     \<lparr>rm_rate = 0, rm_blend = 0, rm_type = SINE, rm_is_running = False,
      rm_src = None, rm_dst = None, rm_time = 0\<rparr>"

section \<open>Menu state machine (user_interface.c, user_interface.h)\<close>

definition MAX_ITEM_SIZE :: nat where
  "MAX_ITEM_SIZE = 16"

definition MAX_ITEM_COUNT :: nat where
  "MAX_ITEM_COUNT = 7"

definition SUBMENU_COUNT :: nat where
  "SUBMENU_COUNT = 7"

record menu_t =
  cnt :: "16 word"
  past_cnt :: "16 word"
  menu_depth :: "8 word"
  item_selected :: "8 word"
  sub_menu_selected :: "8 word"
  show_values :: "8 word"

text \<open>\<open>enum menu_levels\<close>, as the values \<open>sub_menu_selected\<close> is compared with.\<close>

definition MENU_PT :: "8 word" where "MENU_PT = 0"
definition MENU_DELAY :: "8 word" where "MENU_DELAY = 1"
definition MENU_OD :: "8 word" where "MENU_OD = 2"
definition MENU_FUZZ :: "8 word" where "MENU_FUZZ = 3"
definition MENU_TREM :: "8 word" where "MENU_TREM = 4"
definition MENU_RM :: "8 word" where "MENU_RM = 5"

text \<open>
  The initialisers of the table \<open>menus[SUBMENU_COUNT][MAX_ITEM_COUNT][MAX_ITEM_SIZE]\<close>; the
  entries a row does not initialise are empty strings.
\<close>

definition menus :: "string list list" where
  "menus =
     [[''Pass-through'', ''Delay'', ''Overdrive'', ''Fuzz'', ''Tremolo'', ''Ring Modulator''],
      [''Start'', ''BACK''],
      [''Start'', ''Delay'', ''Feedback'', ''Blend'', ''BACK''],
      [''Start'', ''Threshold'', ''BACK''],
      [''Start'', ''Gain'', ''Mix'', ''BACK''],
      [''Start'', ''Rate'', ''Depth'', ''BACK''],
      [''Start'', ''Rate'', ''Blend'', ''Type'', ''BACK'']]"

text \<open>
  What \<open>display_menu\<close> reads and writes: its static \<open>menu\<close>, the counter register
  \<open>TIM2->CNT\<close> of the encoder timer, the effect selector behind \<open>mode\<close>, and the effect
  handles of main.c that \<open>confirm_value\<close> updates. The calls to the LCD driver are left
  out: they return nothing to the state machine.
\<close>

record ui_state =
  menu :: menu_t
  TIM2_CNT :: "32 word"
  fx_mode :: "8 word"
  delay_handle :: delay_handle_t
  overdrive_handle :: overdrive_handle_t
  fuzz_handle :: fuzz_handle_t
  tremolo_handle :: tremolo_handle_t
  ring_mod_handle :: ring_mod_handle_t

text \<open>
  An integer passed where the enums \<open>delay_parameter\<close> and \<open>modulation_parameter\<close> are
  expected; \<open>None\<close> is a value that is no enumerator, for which the switch of an update
  function matches no case.
\<close>

definition delay_parameter_of_int :: "int \<Rightarrow> delay_parameter option" where
  "delay_parameter_of_int i =
     (if i = 0 then Some DELAY else if i = 1 then Some FEEDBACK
      else if i = 2 then Some BLEND else None)"

definition modulation_parameter_of_int :: "int \<Rightarrow> modulation_parameter option" where
  "modulation_parameter_of_int i =
     (if i = 0 then Some RATE else if i = 1 then Some DEPTH else None)"

text \<open>The value \<open>(float32_t) menu->cnt / 100.0f\<close>.\<close>

definition cnt_fraction :: "menu_t \<Rightarrow> real" where
  "cnt_fraction m = real (unat (cnt m)) / 100"

definition confirm_value :: "ui_state \<Rightarrow> ui_state" where
  "confirm_value s =
     (let m = menu s in
      if sub_menu_selected m = MENU_DELAY then
        (if item_selected m = 1
         then s\<lparr>delay_handle :=
                  snd (delay_update (delay_handle s) DELAY (MAX_DELAY_TIME * cnt_fraction m))\<rparr>
         else
           (case delay_parameter_of_int (uint (item_selected m) - 1) of
              Some pm \<Rightarrow>
                s\<lparr>delay_handle := snd (delay_update (delay_handle s) pm (cnt_fraction m))\<rparr>
            | None \<Rightarrow> s))
      else if sub_menu_selected m = MENU_OD then
        s\<lparr>overdrive_handle :=
             snd (overdrive_update (overdrive_handle s) (float_0_4 * cnt_fraction m))\<rparr>
      else if sub_menu_selected m = MENU_FUZZ then
        (if item_selected m = 1
         then s\<lparr>fuzz_handle := snd (fuzz_update (fuzz_handle s) GAIN (18 * cnt_fraction m))\<rparr>
         else s\<lparr>fuzz_handle := snd (fuzz_update (fuzz_handle s) MIX (cnt_fraction m))\<rparr>)
      else if sub_menu_selected m = MENU_TREM then
        (case modulation_parameter_of_int (uint (item_selected m) - 1) of
           Some pm \<Rightarrow>
             s\<lparr>tremolo_handle := snd (tremolo_update (tremolo_handle s) pm (cnt_fraction m))\<rparr>
         | None \<Rightarrow> s)
      else if sub_menu_selected m = MENU_RM then
        (if item_selected m \<noteq> 3
         then s\<lparr>ring_mod_handle :=
                  snd (ring_mod_update (ring_mod_handle s)
                         (modulation_parameter_of_int (uint (item_selected m) - 1))
                         NO_CHANGE (cnt_fraction m))\<rparr>
         else
           s\<lparr>ring_mod_handle :=
                snd (ring_mod_update (ring_mod_handle s)
                       (modulation_parameter_of_int (uint (item_selected m) - 1))
                       (if cnt m < 33 then SINE else if cnt m < 66 then TRIANGLE else SQUARE)
                       255)\<rparr>)
      else s)"

text \<open>
  The statement \<open>menu.item_selected = (change > 0) ? menu.item_selected++ :
  menu.item_selected--;\<close> stores to \<open>item_selected\<close> twice without a sequence point in
  between, which C leaves undefined. A compiler yields one of two results: the old value
  (the assignment is the last store) or the stepped value (the increment or decrement is
  the last store). The model takes this choice as a parameter.
\<close>

datatype postfix_assign = AssignmentLast | PostfixLast

definition rotate_item :: "postfix_assign \<Rightarrow> menu_t \<Rightarrow> 8 word" where
  "rotate_item pa m =
     (let change = sint (cnt m - past_cnt m);
          item = (case pa of
                    AssignmentLast \<Rightarrow> item_selected m
                  | PostfixLast \<Rightarrow>
                      (if change > 0 then item_selected m + 1 else item_selected m - 1))
      in item mod of_nat MAX_ITEM_COUNT)"

text \<open>
  The button part of \<open>display_menu\<close>. \<open>size\<close> is \<open>ARRAY_SIZE\<close> of one entry of the table,
  a \<open>char[MAX_ITEM_SIZE]\<close>, whatever the two indices are.
\<close>

definition menu_button :: "ui_state \<Rightarrow> ui_state" where
  "menu_button s =
     (let m = menu s in
      if menu_depth m = 0 then
        s\<lparr>menu := m\<lparr>sub_menu_selected := item_selected m, menu_depth := menu_depth m + 1\<rparr>\<rparr>
      else if menu_depth m = 1 then
        (let size = (of_nat MAX_ITEM_SIZE :: 8 word) in
         if uint (item_selected m) = uint size - 1 then
           s\<lparr>menu := m\<lparr>menu_depth := menu_depth m - 1, item_selected := 0\<rparr>, TIM2_CNT := 0\<rparr>
         else if item_selected m = 0 then
           s\<lparr>fx_mode := sub_menu_selected m\<rparr>
         else
           s\<lparr>menu := m\<lparr>show_values := 1, menu_depth := menu_depth m + 1\<rparr>, TIM2_CNT := 50\<rparr>)
      else if menu_depth m = 2 then
        (let s' = confirm_value s in s'\<lparr>menu := (menu s')\<lparr>show_values := 0\<rparr>\<rparr>)
      else
        s\<lparr>menu := m\<lparr>menu_depth := menu_depth m - 1\<rparr>\<rparr>)"

definition display_menu :: "postfix_assign \<Rightarrow> 8 word \<Rightarrow> ui_state \<Rightarrow> ui_state" where
  "display_menu pa btn_pressed s0 =
     (let s1 = s0\<lparr>menu := (menu s0)\<lparr>cnt := ucast (TIM2_CNT s0)\<rparr>\<rparr>;
          s2 = (if btn_pressed \<noteq> 0 then menu_button s1 else s1);
          m = menu s2;
          m' = (if cnt m \<noteq> past_cnt m \<and> show_values m = 0
                then m\<lparr>item_selected := rotate_item pa m\<rparr> else m)
      in s2\<lparr>menu := m'\<lparr>past_cnt := cnt m'\<rparr>\<rparr>)"

text \<open>The state at start-up: everything zero-initialised.\<close>

definition ui_init :: ui_state where
  "ui_init =
     \<lparr>menu = \<lparr>cnt = 0, past_cnt = 0, menu_depth = 0, item_selected = 0,
              sub_menu_selected = 0, show_values = 0\<rparr>,
      TIM2_CNT = 0, fx_mode = 0,
      delay_handle = delay_handle_zero,
      overdrive_handle = \<lparr>threshold = 0, od_is_running = False, od_src = None, od_dst = None\<rparr>,
      fuzz_handle = \<lparr>gain = 0, mix = 0, fuzz_is_running = False,
                     fuzz_src = None, fuzz_dst = None\<rparr>,
      tremolo_handle = \<lparr>trem_rate = 0, depth = 0, trem_is_running = False, trem_time = 0,
                        trem_src = None, trem_dst = None\<rparr>,
      ring_mod_handle = ex_ring_mod_handle\<rparr>"

text \<open>
  What happens to the menu over time: the encoder hardware moves the counter register,
  and the control loop calls \<open>display_menu\<close> with the current button flag.
\<close>

datatype ui_event = Encoder "32 word" | Display "8 word"

fun ui_step :: "postfix_assign \<Rightarrow> ui_state \<Rightarrow> ui_event \<Rightarrow> ui_state" where
  "ui_step pa s (Encoder c) = s\<lparr>TIM2_CNT := c\<rparr>"
| "ui_step pa s (Display b) = display_menu pa b s"

definition ui_run :: "postfix_assign \<Rightarrow> ui_state \<Rightarrow> ui_event list \<Rightarrow> ui_state" where
  "ui_run pa s es = foldl (ui_step pa) s es"

section \<open>Audio pipeline scheduler (main.c)\<close>

text \<open>
  \<open>enum callback_state\<close> as the values of the \<open>volatile uint8_t\<close> flag, and
  \<open>enum ping_pong\<close>.
\<close>

definition NONE :: "8 word" where "NONE = 0"
definition HALFCPLT :: "8 word" where "HALFCPLT = 1"
definition CPLT :: "8 word" where "CPLT = 2"

datatype ping_pong = PING | PONG

text \<open>
  Where the control loop of \<open>main\<close> is: at its \<open>switch (callback_state)\<close>, or inside the
  \<open>HALFCPLT\<close> or \<open>CPLT\<close> case, between reading the flag and storing \<open>NONE\<close> to it.
\<close>

datatype loop_pc = AtSwitch | InCase ping_pong

text \<open>
  The flag, the position of the control loop, whether \<open>Error_Handler\<close> has been entered
  (it disables the interrupts and never returns), and a record of the work done: the
  halves processed by \<open>rx_samples; run_fx; tx_samples\<close> in order, and the number of
  \<open>display_menu\<close> calls. The work itself does not touch the flag and is not carried out
  here.
\<close>

record sched_state =
  callback_state :: "8 word"
  pc :: loop_pc
  in_error_handler :: bool
  processed :: "ping_pong list"
  menu_calls :: nat

definition sched_init :: sched_state where
  "sched_init =
     \<lparr>callback_state = NONE, pc = AtSwitch, in_error_handler = False,
      processed = [], menu_calls = 0\<rparr>"

text \<open>
  The two interrupt callbacks, and the two steps of a loop iteration: evaluating the
  switch, and reaching the end of a processing case. An interrupt can arrive between any
  two steps.
\<close>

datatype sched_event = HalfCpltCallback | CpltCallback | LoopSwitch | LoopCaseEnd

definition HAL_I2SEx_TxRxHalfCpltCallback :: "sched_state \<Rightarrow> sched_state" where
  "HAL_I2SEx_TxRxHalfCpltCallback s = s\<lparr>callback_state := HALFCPLT\<rparr>"

definition HAL_I2SEx_TxRxCpltCallback :: "sched_state \<Rightarrow> sched_state" where
  "HAL_I2SEx_TxRxCpltCallback s = s\<lparr>callback_state := CPLT\<rparr>"

definition main_loop_switch :: "sched_state \<Rightarrow> sched_state" where
  "main_loop_switch s =
     (if callback_state s = NONE then s\<lparr>menu_calls := menu_calls s + 1\<rparr>
      else if callback_state s = HALFCPLT then s\<lparr>pc := InCase PING\<rparr>
      else if callback_state s = CPLT then s\<lparr>pc := InCase PONG\<rparr>
      else s\<lparr>in_error_handler := True\<rparr>)"

definition main_loop_case_end :: "ping_pong \<Rightarrow> sched_state \<Rightarrow> sched_state" where
  "main_loop_case_end p s =
     s\<lparr>processed := processed s @ [p], callback_state := NONE, pc := AtSwitch\<rparr>"

fun sched_step :: "sched_state \<Rightarrow> sched_event \<Rightarrow> sched_state" where
  "sched_step s e =
     (if in_error_handler s then s
      else
        (case e of
           HalfCpltCallback \<Rightarrow> HAL_I2SEx_TxRxHalfCpltCallback s
         | CpltCallback \<Rightarrow> HAL_I2SEx_TxRxCpltCallback s
         | LoopSwitch \<Rightarrow> (case pc s of AtSwitch \<Rightarrow> main_loop_switch s | InCase p \<Rightarrow> s)
         | LoopCaseEnd \<Rightarrow> (case pc s of AtSwitch \<Rightarrow> s | InCase p \<Rightarrow> main_loop_case_end p s)))"

definition sched_run :: "sched_state \<Rightarrow> sched_event list \<Rightarrow> sched_state" where
  "sched_run s es = foldl sched_step s es"

section \<open>Properties of the ring buffer\<close>

lemma ring_buffer_init_index:
  "ring_buffer_init st rbd attr = (r, rbd', st') \<Longrightarrow>
     rb_index st' = (if r = SUCCESS then rb_index st + 1 else rb_index st)"
  by (auto simp: ring_buffer_init_def SUCCESS_def FAILURE_def split: option.splits if_splits)

lemma ring_buffer_init_exhausted:
  "RING_BUFFER_MAX \<le> rb_index st \<Longrightarrow> ring_buffer_init st rbd attr = (FAILURE, rbd, st)"
  by (auto simp: ring_buffer_init_def split: option.splits)

lemma rb_call_step_index:
  "rb_call_step st c = Some st' \<Longrightarrow> rb_index st \<le> rb_index st'"
proof (cases c)
  case (CallInit rbd attr)
  assume "rb_call_step st c = Some st'"
  with CallInit have "ring_buffer_init st rbd attr
      = (fst (ring_buffer_init st rbd attr), fst (snd (ring_buffer_init st rbd attr)), st')"
    by auto
  from ring_buffer_init_index [OF this] show ?thesis by (simp split: if_splits)
next
  case (CallPut rbd d)
  assume "rb_call_step st c = Some st'"
  with CallPut show ?thesis
    by (auto simp: ring_buffer_put_def Let_def split: option.splits if_splits)
next
  case (CallGet rbd)
  assume "rb_call_step st c = Some st'"
  with CallGet show ?thesis
    by (auto simp: ring_buffer_get_def Let_def split: option.splits if_splits)
next
  case (CallCount rbd)
  assume "rb_call_step st c = Some st'"
  with CallCount show ?thesis by auto
next
  case (CallClear rbd)
  assume "rb_call_step st c = Some st'"
  with CallClear show ?thesis
    by (auto simp: ring_buffer_clear_def Let_def split: option.splits if_splits)
qed

lemma rb_run_index:
  "rb_run st cs = Some st' \<Longrightarrow> rb_index st \<le> rb_index st'"
proof (induction cs arbitrary: st)
  case Nil
  then show ?case by simp
next
  case (Cons c cs)
  then obtain st1 where s1: "rb_call_step st c = Some st1" and r: "rb_run st1 cs = Some st'"
    by (auto split: option.splits)
  from rb_call_step_index [OF s1] Cons.IH [OF r] show ?case by simp
qed

lemma ex_init_fresh:
  "ring_buffer_init rb_module_init (Some 1) (Some ex_attr) = (SUCCESS, Some 0, ex_rb_fresh)"
  by (simp add: ring_buffer_init_def rb_module_init_def ex_attr_def ex_rb_fresh_def
      RING_BUFFER_MAX_def rb_zero_def)

lemma ex_run_put:
  "rb_run ex_rb_fresh [CallPut 0 [7]] = Some ex_rb_one"
  by (simp add: ring_buffer_put_def ring_buffer_full_def memcpy_to_def ex_rb_fresh_def
      ex_rb_one_def RING_BUFFER_MAX_def Let_def)

text \<open>
  C6. With a valid designator, \<open>ring_buffer_put\<close> returns \<open>FAILURE\<close> exactly when
  \<open>head - tail\<close> equals \<open>max_elements\<close>, and \<open>ring_buffer_get\<close> returns \<open>FAILURE\<close> exactly
  when \<open>head - tail\<close> is 0; a failing call returns the module state it was given
  (head, tail and storage untouched), and a failing \<open>get\<close> writes nothing to its output.
\<close>

theorem ring_buffer_full_empty_atomic:
  assumes "unat rbd < RING_BUFFER_MAX"
  shows "((\<exists>st'. ring_buffer_put st rbd d = Some (FAILURE, st'))
            \<longleftrightarrow> head (rb_table st ! unat rbd) - tail (rb_table st ! unat rbd)
                  = max_elements (rb_table st ! unat rbd))
       \<and> (\<forall>st'. ring_buffer_put st rbd d = Some (FAILURE, st') \<longrightarrow> st' = st)
       \<and> ((\<exists>out st'. ring_buffer_get st rbd = Some (FAILURE, out, st'))
            \<longleftrightarrow> head (rb_table st ! unat rbd) - tail (rb_table st ! unat rbd) = 0)
       \<and> (\<forall>out st'. ring_buffer_get st rbd = Some (FAILURE, out, st')
            \<longrightarrow> st' = st \<and> out = None)"
proof -
  have p1: "(\<exists>st'. ring_buffer_put st rbd d = Some (FAILURE, st'))
            \<longleftrightarrow> head (rb_table st ! unat rbd) - tail (rb_table st ! unat rbd)
                  = max_elements (rb_table st ! unat rbd)"
    using assms
    by (auto simp: ring_buffer_put_def ring_buffer_full_def Let_def SUCCESS_def FAILURE_def
        split: option.splits if_splits)
  have p2: "\<forall>st'. ring_buffer_put st rbd d = Some (FAILURE, st') \<longrightarrow> st' = st"
    by (auto simp: ring_buffer_put_def Let_def SUCCESS_def FAILURE_def
        split: option.splits if_splits)
  have g1: "(\<exists>out st'. ring_buffer_get st rbd = Some (FAILURE, out, st'))
            \<longleftrightarrow> head (rb_table st ! unat rbd) - tail (rb_table st ! unat rbd) = 0"
    using assms
    by (auto simp: ring_buffer_get_def ring_buffer_empty_def Let_def SUCCESS_def FAILURE_def
        split: option.splits if_splits)
  have g2: "\<forall>out st'. ring_buffer_get st rbd = Some (FAILURE, out, st')
            \<longrightarrow> st' = st \<and> out = None"
    by (auto simp: ring_buffer_get_def Let_def SUCCESS_def FAILURE_def
        split: option.splits if_splits)
  from p1 p2 g1 g2 show ?thesis by blast
qed

theorem ring_buffer_full_empty_atomic_witness:
  "unat (0 :: rb_designator_t) < RING_BUFFER_MAX
   \<and> ring_buffer_put ex_rb_full 0 [5] = Some (FAILURE, ex_rb_full)
   \<and> ring_buffer_get ex_rb_fresh 0 = Some (FAILURE, None, ex_rb_fresh)
   \<and> (\<exists>st'. ring_buffer_put ex_rb_fresh 0 [7] = Some (SUCCESS, st'))"
proof -
  have h: "unat (0 :: rb_designator_t) < RING_BUFFER_MAX"
    by (simp add: RING_BUFFER_MAX_def)
  have full: "head (rb_table ex_rb_full ! unat (0 :: rb_designator_t))
                - tail (rb_table ex_rb_full ! unat (0 :: rb_designator_t))
              = max_elements (rb_table ex_rb_full ! unat (0 :: rb_designator_t))"
    by (simp add: ex_rb_full_def)
  have empty: "head (rb_table ex_rb_fresh ! unat (0 :: rb_designator_t))
                - tail (rb_table ex_rb_fresh ! unat (0 :: rb_designator_t)) = 0"
    by (simp add: ex_rb_fresh_def)
  from ring_buffer_full_empty_atomic [OF h, of ex_rb_full "[5]"] full
  have a: "ring_buffer_put ex_rb_full 0 [5] = Some (FAILURE, ex_rb_full)" by blast
  from ring_buffer_full_empty_atomic [OF h, of ex_rb_fresh "[5]"] empty
  have b: "ring_buffer_get ex_rb_fresh 0 = Some (FAILURE, None, ex_rb_fresh)" by blast
  have c: "\<exists>st'. ring_buffer_put ex_rb_fresh 0 [7] = Some (SUCCESS, st')"
    by (simp add: ring_buffer_put_def ring_buffer_full_def memcpy_to_def ex_rb_fresh_def
        RING_BUFFER_MAX_def Let_def)
  from h a b c show ?thesis by simp
qed

text \<open>
  C7. \<open>ring_buffer_init\<close> with a free slot, non-null pointers and element size 4 succeeds
  for capacity 0, which is not a power of two; it succeeds for capacity 16 and fails for
  capacity 17.
\<close>

theorem ring_buffer_init_capacity_zero:
  "fst (ring_buffer_init rb_module_init (Some 1)
     (Some \<lparr>attr_element_size = 4, attr_max_elements = 0, attr_buffer = Some []\<rparr>)) = SUCCESS
   \<and> fst (ring_buffer_init rb_module_init (Some 1)
     (Some \<lparr>attr_element_size = 4, attr_max_elements = 16,
            attr_buffer = Some (replicate 64 0)\<rparr>)) = SUCCESS
   \<and> fst (ring_buffer_init rb_module_init (Some 1)
     (Some \<lparr>attr_element_size = 4, attr_max_elements = 17,
            attr_buffer = Some (replicate 68 0)\<rparr>)) = FAILURE"
  by (simp add: ring_buffer_init_def rb_module_init_def RING_BUFFER_MAX_def)

text \<open>
  C10. The slot counter grows by one on every successful initialisation and no entry
  point lowers it: once \<open>ring_buffer_init\<close> has succeeded, after any further calls of
  the module every \<open>ring_buffer_init\<close> returns \<open>FAILURE\<close> and changes nothing, whatever
  its arguments.
\<close>

theorem ring_buffer_init_at_most_once:
  assumes "ring_buffer_init st rbd attr = (SUCCESS, rbd', st1)"
    and "rb_run st1 cs = Some st2"
  shows "ring_buffer_init st2 rbd2 attr2 = (FAILURE, rbd2, st2)"
proof -
  from ring_buffer_init_index [OF assms(1)] have "rb_index st1 = rb_index st + 1" by simp
  with rb_run_index [OF assms(2)] have "RING_BUFFER_MAX \<le> rb_index st2"
    by (simp add: RING_BUFFER_MAX_def)
  then show ?thesis by (rule ring_buffer_init_exhausted)
qed

theorem ring_buffer_init_at_most_once_witness:
  "ring_buffer_init rb_module_init (Some 1) (Some ex_attr) = (SUCCESS, Some 0, ex_rb_fresh)
   \<and> rb_run ex_rb_fresh [CallPut 0 [7]] = Some ex_rb_one
   \<and> ring_buffer_init ex_rb_one (Some 1) (Some ex_attr) = (FAILURE, Some 1, ex_rb_one)"
  using ring_buffer_init_at_most_once [OF ex_init_fresh ex_run_put, of "Some 1" "Some ex_attr"]
    ex_init_fresh ex_run_put
  by simp

subsection \<open>FIFO order\<close>

lemma slot_write_before:
  assumes "length x = E" "off + E \<le> length b" "o2 + E \<le> off"
  shows "take E (drop o2 (take off b @ x @ drop (off + E) b)) = take E (drop o2 b)"
proof -
  have "take E (drop o2 (take off b @ x @ drop (off + E) b)) = take E (drop o2 (take off b))"
    using assms by simp
  also have "\<dots> = take E (take (off - o2) (drop o2 b))"
    by (simp only: drop_take)
  also have "\<dots> = take E (drop o2 b)"
    using assms by (simp add: min_absorb1)
  finally show ?thesis .
qed

lemma slot_write_after:
  "length x = E \<Longrightarrow> off + E \<le> length b \<Longrightarrow> off + E \<le> o2 \<Longrightarrow>
     take E (drop o2 (take off b @ x @ drop (off + E) b)) = take E (drop o2 b)"
  by (simp add: min_def)

lemma slot_write_other:
  assumes "length x = E" "j0 * E + E \<le> length b" "j \<noteq> j0"
  shows "take E (drop (j * E) (take (j0 * E) b @ x @ drop (j0 * E + E) b))
           = take E (drop (j * E) b)"
proof (cases "j < j0")
  case True
  then have "Suc j \<le> j0" by simp
  then have "Suc j * E \<le> j0 * E" by (rule mult_le_mono1)
  then have "j * E + E \<le> j0 * E" by simp
  with assms show ?thesis by (intro slot_write_before)
next
  case False
  with assms(3) have "Suc j0 \<le> j" by simp
  then have "Suc j0 * E \<le> j * E" by (rule mult_le_mono1)
  then have "j0 * E + E \<le> j * E" by simp
  with assms show ?thesis by (intro slot_write_after)
qed

lemma unat_and_pow2:
  "unat ((w :: 32 word) AND (2 ^ k - 1)) = unat w mod 2 ^ k"
proof -
  have "w AND (2 ^ k - 1) = take_bit k w"
    by (simp add: take_bit_eq_mask mask_eq_decr_exp)
  then have "unat (w AND (2 ^ k - 1)) = take_bit k (unat w)"
    by (simp only: unsigned_take_bit_eq)
  then show ?thesis by (simp add: take_bit_eq_mod)
qed

lemma unat_pow2:
  assumes "k < 32"
  shows "unat ((2::32 word) ^ k) = 2 ^ k"
proof -
  have lt: "(2::nat) ^ k < 2 ^ LENGTH(32)"
    using assms by (intro power_strict_increasing) simp_all
  have "(2::32 word) ^ k = of_nat (2 ^ k)" by simp
  then have "unat ((2::32 word) ^ k) = 2 ^ k mod 2 ^ LENGTH(32)"
    by (simp only: unat_of_nat)
  with lt show ?thesis by (simp only: mod_less)
qed

lemma unat_add_mod_pow2:
  assumes "k \<le> 32"
  shows "unat ((a :: 32 word) + b) mod 2 ^ k = (unat a + unat b) mod 2 ^ k"
proof -
  have "(2::nat) ^ k dvd 2 ^ 32" using assms by (rule le_imp_power_dvd)
  then have "(unat a + unat b) mod 2 ^ 32 mod 2 ^ k = (unat a + unat b) mod 2 ^ k"
    by (rule mod_mod_cancel)
  then show ?thesis by (simp add: unat_word_ariths)
qed

lemma slot_offset:
  assumes "rb_wf k rb"
  shows "unat ((w AND (max_elements rb - 1)) * element_size rb)
           = (unat w mod 2 ^ k) * unat (element_size rb)"
    and "(unat w mod 2 ^ k) * unat (element_size rb) + unat (element_size rb) \<le> length (buf rb)"
proof -
  let ?E = "unat (element_size rb)"
  let ?j = "unat w mod 2 ^ k"
  from assms have k: "k < 32" and m: "max_elements rb = 2 ^ k"
    and len: "length (buf rb) = 2 ^ k * ?E" and lt: "length (buf rb) < 2 ^ 32"
    by (simp_all add: rb_wf_def)
  have j: "?j < 2 ^ k" by simp
  then have "Suc ?j \<le> 2 ^ k" by (rule Suc_leI)
  then have "Suc ?j * ?E \<le> 2 ^ k * ?E" by (rule mult_le_mono1)
  then have b: "?j * ?E + ?E \<le> 2 ^ k * ?E" by simp
  with len show "?j * ?E + ?E \<le> length (buf rb)" by simp
  have ja: "unat (w AND (max_elements rb - 1)) = ?j"
    by (simp only: m unat_and_pow2)
  from b len lt have "?j * ?E < 2 ^ 32" by simp
  then have "unat (w AND (max_elements rb - 1)) * unat (element_size rb) < 2 ^ LENGTH(32)"
    by (simp only: ja) simp
  then have "unat ((w AND (max_elements rb - 1)) * element_size rb)
       = unat (w AND (max_elements rb - 1)) * unat (element_size rb)"
    by (simp only: unat_mult_lem)
  with ja show "unat ((w AND (max_elements rb - 1)) * element_size rb) = ?j * ?E" by simp
qed

lemma head_slot:
  assumes "k < 32"
  shows "unat (head rb) mod 2 ^ k = (unat (tail rb) + unat (head rb - tail rb)) mod 2 ^ k"
proof -
  have "head rb = tail rb + (head rb - tail rb)" by simp
  then have "unat (head rb) mod 2 ^ k = unat (tail rb + (head rb - tail rb)) mod 2 ^ k" by simp
  also have "\<dots> = (unat (tail rb) + unat (head rb - tail rb)) mod 2 ^ k"
    using assms by (intro unat_add_mod_pow2) simp
  finally show ?thesis .
qed

lemma slots_distinct:
  assumes "i < c" "c < (n::nat)"
  shows "(t + i) mod n \<noteq> (t + c) mod n"
proof
  assume "(t + i) mod n = (t + c) mod n"
  then have "(t + c) mod n = (t + i) mod n" by simp
  moreover have "t + i \<le> t + c" using assms by simp
  ultimately have "n dvd (t + c) - (t + i)" by (simp add: mod_eq_dvd_iff_nat)
  then have "n dvd c - i" by simp
  moreover have "0 < c - i" using assms by simp
  ultimately have "n \<le> c - i" by (rule dvd_imp_le)
  with assms show False by simp
qed

lemma count_after_put:
  assumes "unat ((h::32 word) - t) < 2 ^ k" "k < 32"
  shows "unat (h + 1 - t) = Suc (unat (h - t))"
proof -
  have "(2::nat) ^ k < 2 ^ 32" using assms(2) by (intro power_strict_increasing) simp_all
  with assms have "unat (h - t) + unat (1::32 word) < 2 ^ LENGTH(32)" by simp
  then have "unat (h - t + 1) = unat (h - t) + unat (1::32 word)"
    by (simp only: unat_add_lem)
  moreover have "h + 1 - t = h - t + 1" by (simp add: algebra_simps)
  ultimately show ?thesis by (simp only: unat_1 add_Suc_right add_0_right One_nat_def)
qed

lemma rb_after_put_wf:
  assumes "rb_wf k rb" "unat (head rb - tail rb) < 2 ^ k" "length x = unat (element_size rb)"
  shows "rb_wf k (rb_after_put rb x)"
proof -
  from assms(1) have k: "k < 32" and m: "max_elements rb = 2 ^ k" by (simp_all add: rb_wf_def)
  from m k have um: "unat (max_elements rb) = 2 ^ k" by (simp add: unat_pow2)
  from slot_offset(2) [OF assms(1), of "head rb"]
  have fit: "(unat (head rb) mod 2 ^ k) * unat (element_size rb) + unat (element_size rb)
               \<le> length (buf rb)" .
  from count_after_put [OF assms(2) k]
  have c: "unat (head rb + 1 - tail rb) = Suc (unat (head rb - tail rb))" .
  have le: "(unat (head rb) mod 2 ^ k) * unat (element_size rb) \<le> length (buf rb)"
    using fit by simp
  have "length (buf (rb_after_put rb x)) = length (buf rb)"
    using fit le assms(3) by (simp add: rb_after_put_def Let_def um min_absorb2)
  moreover have "unat (head (rb_after_put rb x) - tail (rb_after_put rb x)) \<le> 2 ^ k"
    using c assms(2) by (simp add: rb_after_put_def Let_def)
  moreover have "max_elements (rb_after_put rb x) = max_elements rb"
    "element_size (rb_after_put rb x) = element_size rb"
    by (simp_all add: rb_after_put_def Let_def)
  ultimately show ?thesis using assms(1) by (simp add: rb_wf_def)
qed

lemma rb_after_put_contents:
  assumes "rb_wf k rb" "unat (head rb - tail rb) < 2 ^ k" "length x = unat (element_size rb)"
  shows "rb_contents (rb_after_put rb x) = rb_contents rb @ [x]"
proof -
  let ?E = "unat (element_size rb)"
  let ?t = "unat (tail rb)"
  let ?c = "unat (head rb - tail rb)"
  let ?j0 = "unat (head rb) mod 2 ^ k"
  let ?rb' = "rb_after_put rb x"
  from assms(1) have k: "k < 32" and m: "max_elements rb = 2 ^ k" by (simp_all add: rb_wf_def)
  from m k have um: "unat (max_elements rb) = 2 ^ k" by (simp add: unat_pow2)
  from slot_offset(2) [OF assms(1), of "head rb"]
  have fit: "?j0 * ?E + ?E \<le> length (buf rb)" .
  have j0: "?j0 = (?t + ?c) mod 2 ^ k" using k by (rule head_slot)
  have c: "unat (head ?rb' - tail rb) = Suc ?c"
    using count_after_put [OF assms(2) k] by (simp add: rb_after_put_def Let_def)
  have same: "rb_slot ?rb' ?j0 = x"
    using assms(3) fit by (simp add: rb_slot_def rb_after_put_def Let_def um)
  have other: "rb_slot ?rb' j = rb_slot rb j" if "j \<noteq> ?j0" for j
    using slot_write_other [OF assms(3) fit that]
    by (simp add: rb_slot_def rb_after_put_def Let_def um)
  have old: "rb_slot ?rb' ((?t + i) mod 2 ^ k) = rb_slot rb ((?t + i) mod 2 ^ k)" if "i < ?c" for i
  proof -
    from that assms(2) have "(?t + i) mod 2 ^ k \<noteq> (?t + ?c) mod 2 ^ k"
      by (rule slots_distinct)
    with j0 have "(?t + i) mod 2 ^ k \<noteq> ?j0" by simp
    then show ?thesis by (rule other)
  qed
  have meta: "max_elements ?rb' = max_elements rb" "tail ?rb' = tail rb"
    by (simp_all add: rb_after_put_def Let_def)
  have "rb_contents ?rb' =
          map (\<lambda>i. rb_slot ?rb' ((?t + i) mod 2 ^ k)) [0..<Suc ?c]"
    by (simp only: rb_contents_def meta um c)
  also have "\<dots> = map (\<lambda>i. rb_slot ?rb' ((?t + i) mod 2 ^ k)) [0..<?c]
                    @ [rb_slot ?rb' ((?t + ?c) mod 2 ^ k)]"
    by simp
  also have "map (\<lambda>i. rb_slot ?rb' ((?t + i) mod 2 ^ k)) [0..<?c]
               = map (\<lambda>i. rb_slot rb ((?t + i) mod 2 ^ k)) [0..<?c]"
    using old by simp
  also have "rb_slot ?rb' ((?t + ?c) mod 2 ^ k) = x"
    using same j0 by simp
  finally show ?thesis by (simp add: rb_contents_def um)
qed

lemma ring_buffer_put_step:
  assumes "rb_wf k rb" "unat (head rb - tail rb) < 2 ^ k" "length x = unat (element_size rb)"
    and "rb_table st = [rb]"
  shows "ring_buffer_put st 0 x = Some (SUCCESS, st\<lparr>rb_table := [rb_after_put rb x]\<rparr>)"
proof -
  from assms(1) have k: "k < 32" and m: "max_elements rb = 2 ^ k" by (simp_all add: rb_wf_def)
  from m k have um: "unat (max_elements rb) = 2 ^ k" by (simp add: unat_pow2)
  from assms(2) um have nf: "head rb - tail rb \<noteq> max_elements rb" by auto
  note off = slot_offset [OF assms(1), of "head rb"]
  from off assms(3) have mc: "memcpy_to (buf rb)
        (unat ((head rb AND (max_elements rb - 1)) * element_size rb)) x (unat (element_size rb))
      = Some (buf (rb_after_put rb x))"
    by (simp add: memcpy_to_def rb_after_put_def Let_def um)
  show ?thesis
    using nf assms(4) mc
    by (simp add: ring_buffer_put_def ring_buffer_full_def RING_BUFFER_MAX_def Let_def
        rb_after_put_def um)
qed


lemma count_after_get:
  assumes "0 < unat ((h::32 word) - t)"
  shows "unat (h - (t + 1)) = unat (h - t) - 1"
proof -
  from assms have ne: "h - t \<noteq> 0" by auto
  have e: "h - (t + 1) = h - t - 1" by (simp add: algebra_simps)
  show ?thesis unfolding e using ne by (rule unat_minus_one)
qed

lemma tail_slot:
  assumes "k < 32"
  shows "(unat ((t::32 word) + 1) + i) mod 2 ^ k = (unat t + Suc i) mod 2 ^ k"
proof -
  have "(unat (t + 1) + i) mod 2 ^ k = (unat (t + 1) mod 2 ^ k + i) mod 2 ^ k"
    by (simp only: mod_add_left_eq)
  also have "unat (t + 1) mod 2 ^ k = (unat t + unat (1::32 word)) mod 2 ^ k"
    using assms by (intro unat_add_mod_pow2) simp
  also have "((unat t + unat (1::32 word)) mod 2 ^ k + i) mod 2 ^ k
               = (unat t + unat (1::32 word) + i) mod 2 ^ k"
    by (simp only: mod_add_left_eq)
  finally show ?thesis by simp
qed

lemma rb_after_get_wf:
  assumes "rb_wf k rb" "0 < unat (head rb - tail rb)"
  shows "rb_wf k (rb\<lparr>tail := tail rb + 1\<rparr>)"
proof -
  from count_after_get [OF assms(2)]
  have "unat (head rb - (tail rb + 1)) \<le> unat (head rb - tail rb)" by simp
  moreover from assms(1) have "unat (head rb - tail rb) \<le> 2 ^ k" by (simp add: rb_wf_def)
  ultimately have "unat (head rb - (tail rb + 1)) \<le> 2 ^ k" by (rule le_trans)
  with assms(1) show ?thesis by (simp add: rb_wf_def)
qed

lemma rb_after_get_contents:
  assumes "rb_wf k rb" "0 < unat (head rb - tail rb)"
  shows "rb_contents rb = rb_slot rb (unat (tail rb) mod 2 ^ k)
           # rb_contents (rb\<lparr>tail := tail rb + 1\<rparr>)"
proof -
  let ?t = "unat (tail rb)"
  let ?c = "unat (head rb - tail rb)"
  let ?rb' = "rb\<lparr>tail := tail rb + 1\<rparr>"
  from assms(1) have k: "k < 32" and m: "max_elements rb = 2 ^ k" by (simp_all add: rb_wf_def)
  from m k have um: "unat (max_elements rb) = 2 ^ k" by (simp add: unat_pow2)
  from assms(2) obtain c' where c': "?c = Suc c'" by (cases ?c) simp_all
  with count_after_get [OF assms(2)] have cnt: "unat (head rb - (tail rb + 1)) = c'" by simp
  have sl: "rb_slot ?rb' j = rb_slot rb j" for j by (simp add: rb_slot_def)
  have "rb_contents rb = map (\<lambda>i. rb_slot rb ((?t + i) mod 2 ^ k)) [0..<Suc c']"
    by (simp only: rb_contents_def um c')
  also have "\<dots> = rb_slot rb (?t mod 2 ^ k)
                   # map (\<lambda>i. rb_slot rb ((?t + Suc i) mod 2 ^ k)) [0..<c']"
    by (simp only: map_upt_Suc) simp
  also have "map (\<lambda>i. rb_slot rb ((?t + Suc i) mod 2 ^ k)) [0..<c']
               = map (\<lambda>i. rb_slot ?rb' ((unat (tail ?rb') + i) mod 2 ^ k)) [0..<c']"
    using tail_slot [OF k, of "tail rb"] by (simp add: sl)
  also have "\<dots> = rb_contents ?rb'"
    by (simp add: rb_contents_def um cnt)
  finally show ?thesis .
qed

lemma ring_buffer_get_step:
  assumes "rb_wf k rb" "0 < unat (head rb - tail rb)" "rb_table st = [rb]"
  shows "ring_buffer_get st 0
           = Some (SUCCESS, Some (rb_slot rb (unat (tail rb) mod 2 ^ k)),
                   st\<lparr>rb_table := [rb\<lparr>tail := tail rb + 1\<rparr>]\<rparr>)"
proof -
  from assms(2) have ne: "head rb - tail rb \<noteq> 0" by auto
  note off = slot_offset [OF assms(1), of "tail rb"]
  from off have mc: "memcpy_from (buf rb)
        (unat ((tail rb AND (max_elements rb - 1)) * element_size rb)) (unat (element_size rb))
      = Some (rb_slot rb (unat (tail rb) mod 2 ^ k))"
    by (simp add: memcpy_from_def rb_slot_def)
  show ?thesis
    using ne assms(3) mc
    by (simp add: ring_buffer_get_def ring_buffer_empty_def RING_BUFFER_MAX_def Let_def)
qed

lemma rb_put_all_contents:
  assumes "rb_wf k rb" "rb_table st = [rb]"
    and "unat (head rb - tail rb) + length xs \<le> 2 ^ k"
    and "\<forall>x\<in>set xs. length x = unat (element_size rb)"
  shows "\<exists>rb'. rb_put_all st 0 xs
                  = Some (replicate (length xs) SUCCESS, st\<lparr>rb_table := [rb']\<rparr>)
               \<and> rb_wf k rb' \<and> rb_contents rb' = rb_contents rb @ xs"
  using assms
proof (induction xs arbitrary: rb st)
  case Nil
  then have "st\<lparr>rb_table := [rb]\<rparr> = st" by simp
  with Nil show ?case by (intro exI [of _ rb]) simp
next
  case (Cons x xs)
  let ?rb1 = "rb_after_put rb x"
  let ?st1 = "st\<lparr>rb_table := [?rb1]\<rparr>"
  from Cons.prems have nf: "unat (head rb - tail rb) < 2 ^ k"
    and lx: "length x = unat (element_size rb)" by simp_all
  note put = ring_buffer_put_step [OF Cons.prems(1) nf lx Cons.prems(2)]
  note wf1 = rb_after_put_wf [OF Cons.prems(1) nf lx]
  note cont1 = rb_after_put_contents [OF Cons.prems(1) nf lx]
  have es: "element_size ?rb1 = element_size rb" by (simp add: rb_after_put_def Let_def)
  from Cons.prems(1) have k: "k < 32" by (simp add: rb_wf_def)
  have cnt: "unat (head ?rb1 - tail ?rb1) = Suc (unat (head rb - tail rb))"
    using count_after_put [OF nf k] by (simp add: rb_after_put_def Let_def)
  have "\<exists>rb'. rb_put_all ?st1 0 xs
                  = Some (replicate (length xs) SUCCESS, ?st1\<lparr>rb_table := [rb']\<rparr>)
               \<and> rb_wf k rb' \<and> rb_contents rb' = rb_contents ?rb1 @ xs"
    using wf1 Cons.prems cnt es by (intro Cons.IH) simp_all
  then obtain rb' where
    r: "rb_put_all ?st1 0 xs = Some (replicate (length xs) SUCCESS, ?st1\<lparr>rb_table := [rb']\<rparr>)"
    and w: "rb_wf k rb'" and c: "rb_contents rb' = rb_contents ?rb1 @ xs" by blast
  have "rb_put_all st 0 (x # xs)
          = Some (replicate (length (x # xs)) SUCCESS, st\<lparr>rb_table := [rb']\<rparr>)"
    using put r by simp
  with w c cont1 show ?case by auto
qed

lemma rb_get_n_contents:
  assumes "rb_wf k rb" "rb_table st = [rb]" "n \<le> length (rb_contents rb)"
  shows "\<exists>rb'. rb_get_n st 0 n
                  = Some (map (\<lambda>x. (SUCCESS, Some x)) (take n (rb_contents rb)),
                          st\<lparr>rb_table := [rb']\<rparr>)
               \<and> rb_wf k rb' \<and> rb_contents rb' = drop n (rb_contents rb)"
  using assms
proof (induction n arbitrary: rb st)
  case 0
  then have "st\<lparr>rb_table := [rb]\<rparr> = st" by simp
  with 0 show ?case by (intro exI [of _ rb]) simp
next
  case (Suc n)
  let ?rb1 = "rb\<lparr>tail := tail rb + 1\<rparr>"
  let ?st1 = "st\<lparr>rb_table := [?rb1]\<rparr>"
  from Suc.prems(3) have ne: "0 < unat (head rb - tail rb)" by (simp add: rb_contents_def)
  note get = ring_buffer_get_step [OF Suc.prems(1) ne Suc.prems(2)]
  note wf1 = rb_after_get_wf [OF Suc.prems(1) ne]
  note cont = rb_after_get_contents [OF Suc.prems(1) ne]
  from Suc.prems(3) cont have n: "n \<le> length (rb_contents ?rb1)" by simp
  have "\<exists>rb'. rb_get_n ?st1 0 n
                  = Some (map (\<lambda>x. (SUCCESS, Some x)) (take n (rb_contents ?rb1)),
                          ?st1\<lparr>rb_table := [rb']\<rparr>)
               \<and> rb_wf k rb' \<and> rb_contents rb' = drop n (rb_contents ?rb1)"
    using wf1 n by (intro Suc.IH) simp_all
  then obtain rb' where
    r: "rb_get_n ?st1 0 n = Some (map (\<lambda>x. (SUCCESS, Some x)) (take n (rb_contents ?rb1)),
                          ?st1\<lparr>rb_table := [rb']\<rparr>)"
    and w: "rb_wf k rb'" and c: "rb_contents rb' = drop n (rb_contents ?rb1)" by blast
  have tk: "take (Suc n) (rb_contents rb)
              = rb_slot rb (unat (tail rb) mod 2 ^ k) # take n (rb_contents ?rb1)"
    by (subst cont) simp
  have dr: "drop (Suc n) (rb_contents rb) = drop n (rb_contents ?rb1)"
    by (subst cont) simp
  have "rb_get_n st 0 (Suc n)
          = Some (map (\<lambda>x. (SUCCESS, Some x)) (take (Suc n) (rb_contents rb)),
                  st\<lparr>rb_table := [rb']\<rparr>)"
    using get r by (simp add: tk)
  moreover have "rb_contents rb' = drop (Suc n) (rb_contents rb)"
    using c dr by simp
  ultimately show ?case using w by auto
qed

text \<open>
  C5. For a ring buffer of capacity \<open>2 ^ k\<close> over storage of exactly
  \<open>max_elements * element_size\<close> bytes that is empty (\<open>head = tail\<close>, at any counter
  value), putting at most \<open>2 ^ k\<close> elements of \<open>element_size\<close> bytes succeeds for every
  element, and the same number of \<open>get\<close> calls then succeeds and returns exactly these
  elements in the order they were put.
\<close>

theorem ring_buffer_fifo:
  assumes "rb_table st = [rb]"
    and "k < 32" and "max_elements rb = 2 ^ k" and "0 < element_size rb"
    and "length (buf rb) = 2 ^ k * unat (element_size rb)" and "length (buf rb) < 2 ^ 32"
    and "head rb = tail rb"
    and "length xs \<le> 2 ^ k" and "\<forall>x\<in>set xs. length x = unat (element_size rb)"
  shows "\<exists>st1 st2. rb_put_all st 0 xs = Some (replicate (length xs) SUCCESS, st1)
           \<and> rb_get_n st1 0 (length xs) = Some (map (\<lambda>x. (SUCCESS, Some x)) xs, st2)"
proof -
  have wf: "rb_wf k rb" using assms by (simp add: rb_wf_def)
  have emp: "rb_contents rb = []" using assms(7) by (simp add: rb_contents_def)
  have room: "unat (head rb - tail rb) + length xs \<le> 2 ^ k" using assms(7,8) by simp
  from rb_put_all_contents [OF wf assms(1) room assms(9)] obtain rb1 where
    p: "rb_put_all st 0 xs = Some (replicate (length xs) SUCCESS, st\<lparr>rb_table := [rb1]\<rparr>)"
    and w1: "rb_wf k rb1" and c1: "rb_contents rb1 = rb_contents rb @ xs" by blast
  from c1 emp have c1': "rb_contents rb1 = xs" by simp
  have t1: "rb_table (st\<lparr>rb_table := [rb1]\<rparr>) = [rb1]" by simp
  have n: "length xs \<le> length (rb_contents rb1)" using c1' by simp
  from rb_get_n_contents [OF w1 t1 n] obtain rb2 where
    "rb_get_n (st\<lparr>rb_table := [rb1]\<rparr>) 0 (length xs)
       = Some (map (\<lambda>x. (SUCCESS, Some x)) (take (length xs) (rb_contents rb1)),
               st\<lparr>rb_table := [rb1]\<rparr>\<lparr>rb_table := [rb2]\<rparr>)" by blast
  with c1' have "rb_get_n (st\<lparr>rb_table := [rb1]\<rparr>) 0 (length xs)
       = Some (map (\<lambda>x. (SUCCESS, Some x)) xs, st\<lparr>rb_table := [rb1]\<rparr>\<lparr>rb_table := [rb2]\<rparr>)"
    by simp
  with p show ?thesis by blast
qed

theorem ring_buffer_fifo_witness:
  "\<exists>st1 st2. rb_put_all ex_rb_wrap 0 [[7], [9]] = Some ([SUCCESS, SUCCESS], st1)
      \<and> rb_get_n st1 0 2 = Some ([(SUCCESS, Some [7]), (SUCCESS, Some [9])], st2)"
proof -
  have "\<exists>st1 st2.
          rb_put_all ex_rb_wrap 0 [[7], [9]]
            = Some (replicate (length [[7 :: byte], [9]]) SUCCESS, st1)
          \<and> rb_get_n st1 0 (length [[7 :: byte], [9]])
            = Some (map (\<lambda>x. (SUCCESS, Some x)) [[7], [9]], st2)"
    by (rule ring_buffer_fifo [where k = 1 and rb = "hd (rb_table ex_rb_wrap)"])
       (simp_all add: ex_rb_wrap_def)
  then show ?thesis by (simp add: numeral_2_eq_2)
qed

subsection \<open>The power-of-two test of the initialisation\<close>

text \<open>
  The test \<open>((n - 1) & n) == 0\<close> holds exactly for 0 and the powers of two, so
  \<open>ring_buffer_init\<close> succeeds exactly when a slot is free, the pointers are not null, the
  element size is positive and the capacity is 0 or a power of two.
\<close>

lemma and_pred_even:
  assumes "0 < (a::nat)"
  shows "(2 * a - 1) AND (2 * a) = 2 * ((a - 1) AND a)"
proof -
  have o: "odd (2 * a - 1)" using assms by simp
  have d: "(2 * a - 1) div 2 = a - 1" using assms by (cases a) simp_all
  have "(2 * a - 1) AND (2 * a)
          = of_bool (odd (2 * a - 1) \<and> odd (2 * a)) + 2 * (((2 * a - 1) div 2) AND ((2 * a) div 2))"
    by (rule and_rec)
  with d show ?thesis by simp
qed

lemma and_pred_odd: "(2 * a + 1 - 1) AND (2 * a + 1) = 2 * (a::nat)"
proof -
  have "(2 * a) AND (2 * a + 1)
          = of_bool (odd (2 * a) \<and> odd (2 * a + 1)) + 2 * (((2 * a) div 2) AND ((2 * a + 1) div 2))"
    by (rule and_rec)
  then show ?thesis by simp
qed

lemma and_pred_nat_pow2:
  "0 < m \<Longrightarrow> ((m - 1) AND m = (0::nat)) \<longleftrightarrow> (\<exists>k. m = 2 ^ k)"
proof (induction m rule: less_induct)
  case (less m)
  show ?case
  proof (cases "even m")
    case True
    then obtain a where a: "m = 2 * a" by (auto elim: evenE)
    with less.prems have pos: "0 < a" by simp
    from a pos have lt: "a < m" by simp
    have step: "(m - 1) AND m = 2 * ((a - 1) AND a)"
      unfolding a using pos by (rule and_pred_even)
    have ih: "((a - 1) AND a = 0) \<longleftrightarrow> (\<exists>k. a = 2 ^ k)"
      using lt pos by (rule less.IH)
    have "(\<exists>k. m = 2 ^ k) \<longleftrightarrow> (\<exists>k. a = 2 ^ k)"
    proof
      assume "\<exists>k. m = 2 ^ k"
      then obtain k where k: "m = 2 ^ k" by blast
      with a pos have "k \<noteq> 0" by (cases k) auto
      then obtain k' where "k = Suc k'" by (cases k) auto
      with k a have "a = 2 ^ k'" by simp
      then show "\<exists>k. a = 2 ^ k" by blast
    next
      assume "\<exists>k. a = 2 ^ k"
      then obtain k where "a = 2 ^ k" by blast
      with a have "m = 2 ^ Suc k" by simp
      then show "\<exists>k. m = 2 ^ k" by blast
    qed
    with step ih show ?thesis by simp
  next
    case False
    then obtain a where a: "m = 2 * a + 1" by (auto elim: oddE)
    have step: "(m - 1) AND m = 2 * a" unfolding a by (rule and_pred_odd)
    have "(\<exists>k. m = 2 ^ k) \<longleftrightarrow> a = 0"
    proof
      assume "\<exists>k. m = 2 ^ k"
      then obtain k where k: "m = 2 ^ k" by blast
      with False have "k = 0" by (cases k) auto
      with k a show "a = 0" by simp
    next
      assume "a = 0"
      with a have "m = 2 ^ 0" by simp
      then show "\<exists>k. m = 2 ^ k" by blast
    qed
    with step show ?thesis by simp
  qed
qed

lemma word_pow2_test:
  "((n :: 32 word) - 1) AND n = 0 \<longleftrightarrow> n = 0 \<or> (\<exists>k<32. n = 2 ^ k)"
proof (cases "n = 0")
  case True
  then show ?thesis by simp
next
  case False
  then have pos: "0 < unat n" by (simp add: unat_gt_0)
  from False have p: "unat (n - 1) = unat n - 1" by (rule unat_minus_one)
  have "((n - 1) AND n = 0) \<longleftrightarrow> (unat ((n - 1) AND n) = 0)"
    by (simp add: unat_eq_0)
  also have "\<dots> \<longleftrightarrow> ((unat n - 1) AND unat n = 0)"
    by (simp add: unsigned_and_eq p)
  also have "\<dots> \<longleftrightarrow> (\<exists>k. unat n = 2 ^ k)"
    using pos by (rule and_pred_nat_pow2)
  also have "\<dots> \<longleftrightarrow> (\<exists>k<32. n = 2 ^ k)"
  proof
    assume "\<exists>k. unat n = 2 ^ k"
    then obtain k where k: "unat n = 2 ^ k" by blast
    have "unat n < 2 ^ 32" using unsigned_less [of n] by simp
    with k have "(2::nat) ^ k < 2 ^ 32" by simp
    then have k32: "k < 32" by (simp only: power_strict_increasing_iff)
    from k have "of_nat (unat n) = (of_nat (2 ^ k) :: 32 word)" by simp
    then have "n = 2 ^ k" by simp
    with k32 show "\<exists>k<32. n = 2 ^ k" by blast
  next
    assume "\<exists>k<32. n = 2 ^ k"
    then obtain k where "k < 32" "n = 2 ^ k" by blast
    then have "unat n = 2 ^ k" by (simp add: unat_pow2)
    then show "\<exists>k. unat n = 2 ^ k" by blast
  qed
  finally show ?thesis using False by simp
qed

lemma ring_buffer_init_success_iff:
  "fst (ring_buffer_init st rbd attr) = SUCCESS \<longleftrightarrow>
     (\<exists>d a mem. rbd = Some d \<and> attr = Some a \<and> rb_index st < RING_BUFFER_MAX
        \<and> attr_buffer a = Some mem \<and> 0 < attr_element_size a
        \<and> (attr_max_elements a = 0 \<or> (\<exists>k<32. attr_max_elements a = 2 ^ k)))"
  by (auto simp: ring_buffer_init_def SUCCESS_def FAILURE_def word_pow2_test
      split: option.splits)

section \<open>Properties of the effect library\<close>

lemma delay_fill_no_effect: "delay_fill st n = Some st"
  by (induction n)
     (simp_all add: ring_buffer_put_def FXDELAY_def RING_BUFFER_MAX_def)

lemma float_to_uint16_in_range:
  "0 \<le> d \<Longrightarrow> d \<le> MAX_DELAY_TIME \<Longrightarrow> \<exists>n. float_to_uint16 (d * (real Fs / 1000)) = Some n"
  by (simp add: float_to_uint16_def MAX_DELAY_TIME_def Fs_def)

lemma delay_rb_setup_first:
  "delay_rb_setup
     (fx_module_init\<lparr>delay_rb_attr := \<lparr>attr_element_size = 4, attr_max_elements = 65536,
                                        attr_buffer = Some delay_buffer\<rparr>\<rparr>)
   = Some (0, \<lparr>fx_rb = \<lparr>rb_table = [\<lparr>element_size = 4, max_elements = 65536,
                                        buf = delay_buffer, head = 0, tail = 0\<rparr>],
                        rb_index = 1\<rparr>,
               delay_rb_attr = \<lparr>attr_element_size = 4, attr_max_elements = 65536,
                                attr_buffer = Some delay_buffer\<rparr>,
               delay_rbd = 0\<rparr>)"
  by (simp add: delay_rb_setup_def fx_module_init_def ring_buffer_init_def rb_module_init_def
      RING_BUFFER_MAX_def rb_zero_def SUCCESS_def FXDELAY_def)

text \<open>
  C2. At the handle \<open>{delay_ms = 400, blend = 0.25, feedback = 0.5}\<close>,
  \<open>delay_update(handle, FEEDBACK, 0.75)\<close> returns 0 and sets the feedback and also the
  blend to 0.75: the update of one parameter changes another.
\<close>

theorem delay_update_feedback_overwrites_blend:
  "delay_update ex_delay_handle FEEDBACK (3 / 4)
     = (0, ex_delay_handle\<lparr>feedback := 3 / 4, delay_blend := 3 / 4\<rparr>)
   \<and> delay_blend ex_delay_handle = 1 / 4
   \<and> delay_blend (snd (delay_update ex_delay_handle FEEDBACK (3 / 4))) = 3 / 4"
  by (simp add: delay_update_blend_def ex_delay_handle_def)

lemma delay_update_feedback_general:
  "0 \<le> v \<Longrightarrow> v \<le> 1 \<Longrightarrow>
     delay_update handle FEEDBACK v = (0, handle\<lparr>feedback := v, delay_blend := v\<rparr>)"
  by (simp add: delay_update_blend_def)

lemma delay_update_delay_only:
  "v \<le> MAX_DELAY_TIME \<Longrightarrow> delay_update handle DELAY v = (0, handle\<lparr>delay_ms := v\<rparr>)"
  by simp

lemma delay_update_blend_only:
  "0 \<le> v \<Longrightarrow> v \<le> 1 \<Longrightarrow> delay_update handle BLEND v = (0, handle\<lparr>delay_blend := v\<rparr>)"
  by (simp add: delay_update_blend_def)

text \<open>
  C3. With non-null buffers \<open>ring_mod_init\<close> returns 254 and leaves the handle as it was
  for every rate, blend and waveform: the test \<open>rate >= 0 || rate <= 1\<close> holds for every
  number. In particular rate 0.5, blend 0.5 and the sine waveform are rejected.
\<close>

theorem ring_mod_init_always_rejects:
  "ring_mod_init handle (Some a) (Some b) r bl ty = (254, handle)
   \<and> ring_mod_init ex_ring_mod_handle (Some 0) (Some 64) (1 / 2) (1 / 2) SINE
       = (254, ex_ring_mod_handle)"
proof -
  have "r \<ge> 0 \<or> r \<le> 1" by linarith
  then have "ring_mod_init handle (Some a) (Some b) r bl ty = (254, handle)"
    by (auto simp: ring_mod_init_def)
  moreover have "ring_mod_init ex_ring_mod_handle (Some 0) (Some 64) (1 / 2) (1 / 2) SINE
       = (254, ex_ring_mod_handle)"
    by (simp add: ring_mod_init_def)
  ultimately show ?thesis by simp
qed

text \<open>
  C8, as the claim states it: the delay time 0 lies outside the documented range
  \<open>(0, MAX_DELAY_TIME]\<close>, yet the first \<open>delay_init\<close> with it returns 0; the feedback
  \<open>255/256\<close> lies inside the documented range \<open>(0, 1)\<close>, yet \<open>delay_init\<close> returns 254.
\<close>

theorem delay_init_documented_range_counterexample:
  "\<not> delay_documented_range 0 (1 / 2) (1 / 2)
   \<and> map_option fst
        (delay_init fx_module_init delay_handle_zero (Some 0) (Some 64) 0 (1 / 2) (1 / 2))
       = Some 0
   \<and> delay_documented_range 100 (1 / 2) (255 / 256)
   \<and> map_option fst
        (delay_init fx_module_init delay_handle_zero (Some 0) (Some 64) 100 (1 / 2) (255 / 256))
       = Some 254"
proof -
  have a: "\<not> delay_documented_range 0 (1 / 2) (1 / 2)"
    by (simp add: delay_documented_range_def)
  have b: "map_option fst
        (delay_init fx_module_init delay_handle_zero (Some 0) (Some 64) 0 (1 / 2) (1 / 2))
       = Some 0"
    by (simp add: delay_init_def float_0_99_def MAX_DELAY_TIME_def delay_rb_setup_first
        float_to_uint16_def delay_fill_no_effect)
  have c: "delay_documented_range 100 (1 / 2) (255 / 256)"
    by (simp add: delay_documented_range_def MAX_DELAY_TIME_def)
  have d: "map_option fst
        (delay_init fx_module_init delay_handle_zero (Some 0) (Some 64) 100 (1 / 2) (255 / 256))
       = Some 254"
    by (simp add: delay_init_def float_0_99_def)
  from a b c d show ?thesis by blast
qed

text \<open>
  C8, amended. With non-null buffers \<open>delay_init\<close> returns 254 exactly when
  \<open>blend \<le> 0\<close>, \<open>blend \<ge> 1\<close>, \<open>feedback \<le> 0\<close>, \<open>feedback \<ge> 0.99f\<close> or
  \<open>delay_ms > MAX_DELAY_TIME\<close>, and then handle and state are unchanged. Whenever it
  returns 0, the handle holds exactly the given delay time, blend and feedback and the
  given buffers. On the first call, parameters that pass the check with a delay time of
  at least 0 give the return code 0.
\<close>

theorem delay_init_range_check:
  assumes "in_buffer \<noteq> None" and "out_buffer \<noteq> None"
  shows "((\<exists>h' m'. delay_init m handle in_buffer out_buffer d b f = Some (254, h', m'))
            \<longleftrightarrow> (b \<le> 0 \<or> b \<ge> 1 \<or> f \<le> 0 \<or> f \<ge> float_0_99 \<or> d > MAX_DELAY_TIME))
       \<and> (\<forall>h' m'. delay_init m handle in_buffer out_buffer d b f = Some (254, h', m')
            \<longrightarrow> h' = handle \<and> m' = m)
       \<and> (\<forall>h' m'. delay_init m handle in_buffer out_buffer d b f = Some (0, h', m')
            \<longrightarrow> delay_ms h' = d \<and> delay_blend h' = b \<and> feedback h' = f
                \<and> delay_src h' = in_buffer \<and> delay_dst h' = out_buffer)
       \<and> (m = fx_module_init \<and> 0 \<le> d
            \<and> \<not> (b \<le> 0 \<or> b \<ge> 1 \<or> f \<le> 0 \<or> f \<ge> float_0_99 \<or> d > MAX_DELAY_TIME)
            \<longrightarrow> (\<exists>h' m'. delay_init m handle in_buffer out_buffer d b f = Some (0, h', m')))"
proof -
  let ?bad = "b \<le> 0 \<or> b \<ge> 1 \<or> f \<le> 0 \<or> f \<ge> float_0_99 \<or> d > MAX_DELAY_TIME"
  let ?r = "delay_init m handle in_buffer out_buffer d b f"
  have p1: "(\<exists>h' m'. ?r = Some (254, h', m')) \<longleftrightarrow> ?bad"
    using assms
    by (auto simp: delay_init_def Let_def split: option.splits if_splits prod.splits)
  have p2: "\<forall>h' m'. ?r = Some (254, h', m') \<longrightarrow> h' = handle \<and> m' = m"
    using assms
    by (auto simp: delay_init_def Let_def split: option.splits if_splits prod.splits)
  have p3: "\<forall>h' m'. ?r = Some (0, h', m')
            \<longrightarrow> delay_ms h' = d \<and> delay_blend h' = b \<and> feedback h' = f
                \<and> delay_src h' = in_buffer \<and> delay_dst h' = out_buffer"
    using assms
    by (auto simp: delay_init_def Let_def split: option.splits if_splits prod.splits)
  have p4: "\<exists>h' m'. ?r = Some (0, h', m')" if "m = fx_module_init" "0 \<le> d" "\<not> ?bad"
  proof -
    from that have "d \<le> MAX_DELAY_TIME" by simp
    with that(2) obtain n where "float_to_uint16 (d * (real Fs / 1000)) = Some n"
      using float_to_uint16_in_range by blast
    with that assms show ?thesis
      by (simp add: delay_init_def delay_rb_setup_first delay_fill_no_effect)
  qed
  from p1 p2 p3 p4 show ?thesis by blast
qed

theorem delay_init_range_check_witness:
  "Some (0::nat) \<noteq> None \<and> Some (64::nat) \<noteq> None
   \<and> (\<exists>h' m'. delay_init fx_module_init delay_handle_zero (Some 0) (Some 64) 600 (1 / 2) (1 / 2)
        = Some (254, h', m'))
   \<and> (\<exists>h' m'. delay_init fx_module_init delay_handle_zero (Some 0) (Some 64) 400 (1 / 4) (1 / 2)
        = Some (0, h', m'))"
proof -
  have h1: "Some (0::nat) \<noteq> None" and h2: "Some (64::nat) \<noteq> None" by simp_all
  have bad: "(1 / 2 :: real) \<le> 0 \<or> (1 / 2 :: real) \<ge> 1 \<or> (1 / 2 :: real) \<le> 0
      \<or> (1 / 2 :: real) \<ge> float_0_99 \<or> (600 :: real) > MAX_DELAY_TIME"
    by (simp add: MAX_DELAY_TIME_def)
  have good: "fx_module_init = fx_module_init \<and> (0::real) \<le> 400
      \<and> \<not> ((1 / 4 :: real) \<le> 0 \<or> (1 / 4 :: real) \<ge> 1 \<or> (1 / 2 :: real) \<le> 0
            \<or> (1 / 2 :: real) \<ge> float_0_99 \<or> (400 :: real) > MAX_DELAY_TIME)"
    by (simp add: MAX_DELAY_TIME_def float_0_99_def)
  from delay_init_range_check [OF h1 h2, of fx_module_init delay_handle_zero 600 "1 / 2" "1 / 2"] bad
  have a: "\<exists>h' m'. delay_init fx_module_init delay_handle_zero (Some 0) (Some 64) 600 (1 / 2) (1 / 2)
        = Some (254, h', m')" by blast
  from delay_init_range_check [OF h1 h2, of fx_module_init delay_handle_zero 400 "1 / 4" "1 / 2"] good
  have b: "\<exists>h' m'. delay_init fx_module_init delay_handle_zero (Some 0) (Some 64) 400 (1 / 4) (1 / 2)
        = Some (0, h', m')" by blast
  from h1 h2 a b show ?thesis by blast
qed

lemma fuzz_pass1_zero_block:
  "fuzz_pass1 handle (replicate n 0) m = (replicate n 0, m)"
  by (induction n) simp_all

lemma fuzz_pass2_zero_max:
  "zs \<noteq> [] \<Longrightarrow> ss \<noteq> [] \<Longrightarrow> fuzz_pass2 handle zs ss 0 = Inl DivisionByZero"
  by (cases zs; cases ss) simp_all

text \<open>
  C9. For every fuzz handle, \<open>run_fuzz\<close> on the all-zero block leaves the running
  maximum at 0 and then divides by it: the division by \<open>max_z\<close> has no guard.
\<close>

theorem run_fuzz_zero_block_divides_by_zero:
  "run_fuzz handle (replicate PING_PONG_BUFFER_SIZE 0) = Inl DivisionByZero"
proof -
  have "replicate PING_PONG_BUFFER_SIZE (0::real) \<noteq> []"
    by (simp add: PING_PONG_BUFFER_SIZE_def SAMPLES_def)
  then show ?thesis
    by (simp add: run_fuzz_def fuzz_pass1_zero_block fuzz_pass2_zero_max)
qed

lemma real_pos_of_nonneg_nonzero: "(x::real) \<noteq> 0 \<Longrightarrow> 0 \<le> x \<Longrightarrow> 0 < x"
  by simp

lemma fuzz_z_nonpositive:
  assumes "0 < q"
  shows "fuzz_z q < 0"
proof -
  from assms have "exp (- q) < 1" by simp
  moreover from assms have "fuzz_z q = - (1 - exp (- q))" by (simp add: fuzz_z_def)
  ultimately show ?thesis by simp
qed

lemma fuzz_pass1_nonnegative_block:
  assumes "\<forall>s\<in>set ss. 0 \<le> s" and "0 \<le> gain handle"
  shows "snd (fuzz_pass1 handle ss 0) = 0 \<and> length (fst (fuzz_pass1 handle ss 0)) = length ss"
  using assms(1)
proof (induction ss)
  case Nil
  then show ?case by simp
next
  case (Cons s ss)
  let ?q = "s * gain handle / 2 ^ 24"
  from Cons.prems assms(2) have q: "0 \<le> ?q" by simp
  from Cons have ih: "snd (fuzz_pass1 handle ss 0) = 0"
    "length (fst (fuzz_pass1 handle ss 0)) = length ss" by simp_all
  show ?case
  proof (cases "?q = 0")
    case True
    with ih show ?thesis by (simp add: Let_def case_prod_beta)
  next
    case False
    from real_pos_of_nonneg_nonzero [OF False q] have "0 < ?q" .
    then have "fuzz_z ?q < 0" by (rule fuzz_z_nonpositive)
    then have "\<not> fuzz_z ?q > 0" by simp
    with False ih show ?thesis by (simp add: Let_def case_prod_beta)
  qed
qed

lemma run_fuzz_nonnegative_block:
  assumes "\<forall>s\<in>set src. 0 \<le> s" and "0 \<le> gain handle"
    and "length src = PING_PONG_BUFFER_SIZE"
  shows "run_fuzz handle src = Inl DivisionByZero"
proof -
  from assms(3) have ne: "src \<noteq> []" by (auto simp: PING_PONG_BUFFER_SIZE_def SAMPLES_def)
  from fuzz_pass1_nonnegative_block [OF assms(1,2)]
  have m: "snd (fuzz_pass1 handle src 0) = 0"
    and l: "length (fst (fuzz_pass1 handle src 0)) = length src" by simp_all
  from l ne have "fst (fuzz_pass1 handle src 0) \<noteq> []" by auto
  with ne m have "fuzz_pass2 handle (fst (fuzz_pass1 handle src 0)) src
      (snd (fuzz_pass1 handle src 0)) = Inl DivisionByZero"
    by (simp add: fuzz_pass2_zero_max)
  with assms(3) show ?thesis
    by (simp add: run_fuzz_def Let_def case_prod_beta)
qed

section \<open>Properties of the menu state machine\<close>

lemma uint_eq_15: "uint (x :: 8 word) = 15 \<longleftrightarrow> x = 15"
  by (simp add: word_uint_eq_iff)

lemma menu_button_depth_one:
  assumes "menu_depth (menu s) = 1" and "item_selected (menu s) \<noteq> 15"
  shows "menu_depth (menu (menu_button s)) = 1 \<or> menu_depth (menu (menu_button s)) = 2"
  using assms by (simp add: menu_button_def Let_def MAX_ITEM_SIZE_def uint_eq_15)

lemma confirm_value_menu: "menu (confirm_value s) = menu s"
  by (simp add: confirm_value_def Let_def split: option.splits)

lemma menu_button_depth_two:
  assumes "menu_depth (menu s) = 2"
  shows "menu_depth (menu (menu_button s)) = 2"
  using assms by (simp add: menu_button_def Let_def confirm_value_menu)

lemma menu_button_item:
  "item_selected (menu (menu_button s)) = item_selected (menu s)
   \<or> item_selected (menu (menu_button s)) = 0"
  by (simp add: menu_button_def Let_def confirm_value_menu)

lemma rotate_item_bound: "rotate_item pa m < 7"
  by (simp add: rotate_item_def Let_def MAX_ITEM_COUNT_def word_mod_less_divisor)

lemma display_menu_depth:
  "menu_depth (menu (display_menu pa b s))
     = (if b \<noteq> 0 then menu_depth (menu (menu_button
                          (s\<lparr>menu := (menu s)\<lparr>cnt := ucast (TIM2_CNT s)\<rparr>\<rparr>)))
        else menu_depth (menu s))"
  by (simp add: display_menu_def Let_def)

lemma display_menu_item:
  assumes "item_selected (menu s) < 7"
  shows "item_selected (menu (display_menu pa b s)) < 7"
proof -
  let ?s1 = "s\<lparr>menu := (menu s)\<lparr>cnt := ucast (TIM2_CNT s)\<rparr>\<rparr>"
  have b: "item_selected (menu (menu_button ?s1)) < 7"
    using menu_button_item [of ?s1] assms by auto
  show ?thesis
    using assms b by (simp add: display_menu_def Let_def rotate_item_bound)
qed

text \<open>
  Once the menu has left the top level with an item index below \<open>MAX_ITEM_COUNT\<close>, no
  event brings it back to depth 0, whichever entry is selected.
\<close>

lemma ui_step_below_top:
  assumes "item_selected (menu s) < 7"
    and "menu_depth (menu s) = 1 \<or> menu_depth (menu s) = 2"
  shows "item_selected (menu (ui_step pa s e)) < 7
       \<and> (menu_depth (menu (ui_step pa s e)) = 1 \<or> menu_depth (menu (ui_step pa s e)) = 2)"
proof (cases e)
  case (Encoder c)
  with assms show ?thesis by simp
next
  case (Display b)
  let ?s1 = "s\<lparr>menu := (menu s)\<lparr>cnt := ucast (TIM2_CNT s)\<rparr>\<rparr>"
  from assms(1) have ne: "item_selected (menu ?s1) \<noteq> 15" by auto
  have "menu_depth (menu (menu_button ?s1)) = 1 \<or> menu_depth (menu (menu_button ?s1)) = 2"
  proof (cases "menu_depth (menu s) = 1")
    case True
    then have "menu_depth (menu ?s1) = 1" by simp
    from menu_button_depth_one [OF this ne] show ?thesis .
  next
    case False
    with assms(2) have "menu_depth (menu ?s1) = 2" by simp
    from menu_button_depth_two [OF this] show ?thesis by simp
  qed
  with assms(2) have "menu_depth (menu (display_menu pa b s)) = 1
      \<or> menu_depth (menu (display_menu pa b s)) = 2"
    by (simp add: display_menu_depth)
  with display_menu_item [OF assms(1), of pa b] Display show ?thesis by simp
qed

lemma ui_run_below_top:
  assumes "item_selected (menu s) < 7"
    and "menu_depth (menu s) = 1 \<or> menu_depth (menu s) = 2"
  shows "menu_depth (menu (ui_run pa s es)) \<noteq> 0"
proof -
  have "item_selected (menu (foldl (ui_step pa) s es)) < 7
       \<and> (menu_depth (menu (foldl (ui_step pa) s es)) = 1
          \<or> menu_depth (menu (foldl (ui_step pa) s es)) = 2)"
    using assms
  proof (induction es arbitrary: s)
    case Nil
    then show ?case by simp
  next
    case (Cons e es)
    from ui_step_below_top [OF Cons.prems, of pa e]
    have "item_selected (menu (ui_step pa s e)) < 7"
      and "menu_depth (menu (ui_step pa s e)) = 1 \<or> menu_depth (menu (ui_step pa s e)) = 2"
      by simp_all
    from Cons.IH [OF this] show ?case by simp
  qed
  then show ?thesis by (auto simp: ui_run_def)
qed

text \<open>
  When the assignment is the last store of the item-stepping statement, the encoder never
  moves the selection: in every state reached from start-up the selected item and the
  selected sub-menu are 0, the value display is off and the menu is at depth 0 or 1. No
  such state has a later entry of a row selected.
\<close>

lemma ui_step_assignment_last:
  assumes "item_selected (menu s) = 0" and "sub_menu_selected (menu s) = 0"
    and "show_values (menu s) = 0"
    and "menu_depth (menu s) = 0 \<or> menu_depth (menu s) = 1"
  shows "item_selected (menu (ui_step AssignmentLast s e)) = 0
       \<and> sub_menu_selected (menu (ui_step AssignmentLast s e)) = 0
       \<and> show_values (menu (ui_step AssignmentLast s e)) = 0
       \<and> (menu_depth (menu (ui_step AssignmentLast s e)) = 0
          \<or> menu_depth (menu (ui_step AssignmentLast s e)) = 1)"
proof (cases e)
  case (Encoder c)
  with assms show ?thesis by simp
next
  case (Display b)
  from assms(4) show ?thesis
  proof
    assume "menu_depth (menu s) = 0"
    with assms(1-3) Display show ?thesis
      by (simp add: display_menu_def menu_button_def rotate_item_def Let_def
          MAX_ITEM_COUNT_def MAX_ITEM_SIZE_def)
  next
    assume "menu_depth (menu s) = 1"
    with assms(1-3) Display show ?thesis
      by (simp add: display_menu_def menu_button_def rotate_item_def Let_def
          MAX_ITEM_COUNT_def MAX_ITEM_SIZE_def)
  qed
qed

lemma ui_run_assignment_last:
  "item_selected (menu (ui_run AssignmentLast ui_init es)) = 0
   \<and> sub_menu_selected (menu (ui_run AssignmentLast ui_init es)) = 0
   \<and> show_values (menu (ui_run AssignmentLast ui_init es)) = 0
   \<and> (menu_depth (menu (ui_run AssignmentLast ui_init es)) = 0
      \<or> menu_depth (menu (ui_run AssignmentLast ui_init es)) = 1)"
proof -
  have "item_selected (menu (foldl (ui_step AssignmentLast) s es)) = 0
       \<and> sub_menu_selected (menu (foldl (ui_step AssignmentLast) s es)) = 0
       \<and> show_values (menu (foldl (ui_step AssignmentLast) s es)) = 0
       \<and> (menu_depth (menu (foldl (ui_step AssignmentLast) s es)) = 0
          \<or> menu_depth (menu (foldl (ui_step AssignmentLast) s es)) = 1)"
    if "item_selected (menu s) = 0" and "sub_menu_selected (menu s) = 0"
      and "show_values (menu s) = 0"
      and "menu_depth (menu s) = 0 \<or> menu_depth (menu s) = 1" for s
    using that
  proof (induction es arbitrary: s)
    case Nil
    then show ?case by simp
  next
    case (Cons e es)
    from ui_step_assignment_last [OF Cons.prems, of e]
    have "item_selected (menu (ui_step AssignmentLast s e)) = 0"
      and "sub_menu_selected (menu (ui_step AssignmentLast s e)) = 0"
      and "show_values (menu (ui_step AssignmentLast s e)) = 0"
      and "menu_depth (menu (ui_step AssignmentLast s e)) = 0
          \<or> menu_depth (menu (ui_step AssignmentLast s e)) = 1"
      by simp_all
    from Cons.IH [OF this] show ?case by simp
  qed
  moreover have "item_selected (menu ui_init) = 0" "sub_menu_selected (menu ui_init) = 0"
    "show_values (menu ui_init) = 0" "menu_depth (menu ui_init) = 0"
    by (simp_all add: ui_init_def)
  ultimately show ?thesis unfolding ui_run_def by blast
qed

text \<open>
  When instead the increment or decrement is the last store, the state with the second
  entry of row 1 selected is reached by one encoder step and one press, and a press
  there enters depth 2 with the value display on and the counter at 50.
\<close>

lemma ui_run_postfix_last_row_one:
  "menu (ui_run PostfixLast ui_init [Encoder 1, Display 0, Display 1])
     = \<lparr>cnt = 1, past_cnt = 1, menu_depth = 1, item_selected = 1,
        sub_menu_selected = 1, show_values = 0\<rparr>
   \<and> menu (ui_run PostfixLast ui_init [Encoder 1, Display 0, Display 1, Display 1])
     = \<lparr>cnt = 1, past_cnt = 1, menu_depth = 2, item_selected = 1,
        sub_menu_selected = 1, show_values = 1\<rparr>
   \<and> TIM2_CNT (ui_run PostfixLast ui_init [Encoder 1, Display 0, Display 1, Display 1]) = 50"
  by (simp add: ui_run_def ui_init_def display_menu_def Let_def
      menu_button_def rotate_item_def MAX_ITEM_COUNT_def MAX_ITEM_SIZE_def)

section \<open>Properties of the scheduler\<close>

lemma sched_step_flag:
  assumes "\<not> in_error_handler s"
    and "callback_state s = NONE \<or> callback_state s = HALFCPLT \<or> callback_state s = CPLT"
  shows "\<not> in_error_handler (sched_step s e)
       \<and> (callback_state (sched_step s e) = NONE \<or> callback_state (sched_step s e) = HALFCPLT
          \<or> callback_state (sched_step s e) = CPLT)"
  using assms
  by (cases e)
     (auto simp: HAL_I2SEx_TxRxHalfCpltCallback_def HAL_I2SEx_TxRxCpltCallback_def
        main_loop_switch_def main_loop_case_end_def split: loop_pc.splits)

lemma sched_run_flag:
  assumes "\<not> in_error_handler s"
    and "callback_state s = NONE \<or> callback_state s = HALFCPLT \<or> callback_state s = CPLT"
  shows "\<not> in_error_handler (foldl sched_step s es)
       \<and> (callback_state (foldl sched_step s es) = NONE
          \<or> callback_state (foldl sched_step s es) = HALFCPLT
          \<or> callback_state (foldl sched_step s es) = CPLT)"
  using assms
proof (induction es arbitrary: s)
  case Nil
  then show ?case by simp
next
  case (Cons e es)
  from sched_step_flag [OF Cons.prems, of e]
  have "\<not> in_error_handler (sched_step s e)"
    and "callback_state (sched_step s e) = NONE \<or> callback_state (sched_step s e) = HALFCPLT
          \<or> callback_state (sched_step s e) = CPLT" by blast+
  from Cons.IH [OF this] show ?case by simp
qed

lemma sched_never_fatal: "\<not> in_error_handler (sched_run sched_init es)"
proof -
  have "\<not> in_error_handler sched_init" by (simp add: sched_init_def)
  moreover have "callback_state sched_init = NONE \<or> callback_state sched_init = HALFCPLT
      \<or> callback_state sched_init = CPLT" by (simp add: sched_init_def)
  ultimately show ?thesis unfolding sched_run_def using sched_run_flag by blast
qed

text \<open>
  C1, as the claim states it. A second half-complete notification delivered while the
  first is still pending (the flag is \<open>HALFCPLT\<close>, not \<open>NONE\<close>) is not reported: the
  control loop then processes one block, never enters \<open>Error_Handler\<close>, and ends in the
  very state that a single notification leads to. A notification delivered while the
  block is processed is erased by the store of \<open>NONE\<close>.
\<close>

theorem overrun_not_detected_counterexample:
  "callback_state (sched_run sched_init [HalfCpltCallback]) \<noteq> NONE
   \<and> sched_run sched_init [HalfCpltCallback, HalfCpltCallback, LoopSwitch, LoopCaseEnd]
       = sched_run sched_init [HalfCpltCallback, LoopSwitch, LoopCaseEnd]
   \<and> \<not> in_error_handler
         (sched_run sched_init [HalfCpltCallback, HalfCpltCallback, LoopSwitch, LoopCaseEnd])
   \<and> processed
         (sched_run sched_init [HalfCpltCallback, HalfCpltCallback, LoopSwitch, LoopCaseEnd])
       = [PING]
   \<and> sched_run sched_init [HalfCpltCallback, LoopSwitch, HalfCpltCallback, LoopCaseEnd]
       = sched_run sched_init [HalfCpltCallback, LoopSwitch, LoopCaseEnd]"
  by (simp add: sched_run_def sched_init_def HAL_I2SEx_TxRxHalfCpltCallback_def
      main_loop_switch_def main_loop_case_end_def NONE_def HALFCPLT_def CPLT_def)

text \<open>
  C1, amended. After any sequence of notifications and loop steps from start-up the
  control loop has not entered \<open>Error_Handler\<close>; a further notification only stores its
  own phase in the flag, whatever the flag held, and records nothing else: no overrun is
  detected, reported or queued.
\<close>

theorem notification_overwrites_flag:
  "\<not> in_error_handler (sched_run sched_init es)
   \<and> sched_run sched_init (es @ [HalfCpltCallback])
       = (sched_run sched_init es)\<lparr>callback_state := HALFCPLT\<rparr>
   \<and> sched_run sched_init (es @ [CpltCallback])
       = (sched_run sched_init es)\<lparr>callback_state := CPLT\<rparr>"
proof -
  have nf: "\<not> in_error_handler (sched_run sched_init es)" by (rule sched_never_fatal)
  have "sched_run sched_init (es @ [e]) = sched_step (sched_run sched_init es) e" for e
    by (simp add: sched_run_def)
  with nf show ?thesis
    by (simp add: HAL_I2SEx_TxRxHalfCpltCallback_def HAL_I2SEx_TxRxCpltCallback_def)
qed

end
